theory Spec2Isabelle
  imports Complex_Main "HOL-Library.Char_ord" "HOL-Library.List_Lexorder" "HOL-Library.Multiset"
begin

section \<open>Text helpers\<close>

text \<open>
  Python \<open>str\<close> values are modelled as \<open>string\<close>, holding the UTF-8 bytes of the
  text. The helpers below are exact on ASCII text; bytes above 127 are passed through
  unchanged by \<open>lower\<close> and \<open>strip\<close> and are never digits.
\<close>

definition rsquo :: string where
  "rsquo = [CHR 0xE2, CHR 0x80, CHR 0x99]"

definition is_digit :: "char \<Rightarrow> bool" where
  "is_digit c = (let n = (of_char c :: nat) in 48 \<le> n \<and> n \<le> 57)"

definition is_alnum :: "char \<Rightarrow> bool" where
  "is_alnum c = (let n = (of_char c :: nat) in
     (48 \<le> n \<and> n \<le> 57) \<or> (65 \<le> n \<and> n \<le> 90) \<or> (97 \<le> n \<and> n \<le> 122))"

definition is_space :: "char \<Rightarrow> bool" where
  "is_space c = (let n = (of_char c :: nat) in
     (9 \<le> n \<and> n \<le> 13) \<or> (28 \<le> n \<and> n \<le> 32))"

definition lower_char :: "char \<Rightarrow> char" where
  "lower_char c = (let n = (of_char c :: nat) in
     if 65 \<le> n \<and> n \<le> 90 then char_of (n + 32) else c)"

definition lower :: "string \<Rightarrow> string" where
  "lower s = map lower_char s"

definition strip :: "string \<Rightarrow> string" where
  "strip s = rev (dropWhile is_space (rev (dropWhile is_space s)))"

text \<open>\<open>sep.join(parts)\<close>.\<close>

fun join :: "string \<Rightarrow> string list \<Rightarrow> string" where
  "join sep [] = []"
| "join sep [p] = p"
| "join sep (p # ps) = p @ sep @ join sep ps"

text \<open>\<open>tok in text\<close> on strings: \<open>tok\<close> occurs as a contiguous substring.\<close>

fun contains :: "string \<Rightarrow> string \<Rightarrow> bool" where
  "contains tok [] = (tok = [])"
| "contains tok (c # cs) = (take (length tok) (c # cs) = tok \<or> contains tok cs)"

definition hex_upper :: "nat \<Rightarrow> char" where
  "hex_upper n = ''0123456789ABCDEF'' ! (n mod 16)"

definition hex_lower :: "nat \<Rightarrow> char" where
  "hex_lower n = ''0123456789abcdef'' ! (n mod 16)"

text \<open>\<open>urllib.parse.quote_plus\<close> with its default safe set, byte by byte.\<close>

definition quote_char :: "char \<Rightarrow> string" where
  "quote_char c =
     (if is_alnum c \<or> c \<in> set ''_.-~'' then [c]
      else if c = CHR '' '' then ''+''
      else (let n = (of_char c :: nat) in [CHR ''%'', hex_upper (n div 16), hex_upper n]))"

definition quote_plus :: "string \<Rightarrow> string" where
  "quote_plus s = concat (map quote_char s)"

section \<open>Data model\<close>

text \<open>The values a hit's \<open>raw\<close> dictionary holds: the JSON-native Python values.\<close>

datatype pyval =
    PNone
  | PBool bool
  | PInt int
  | PStr string
  | PList "pyval list"
  | PDict "(string \<times> pyval) list"

type_synonym pydict = "(string \<times> pyval) list"

record OSINTQuery =
  first :: string
  last :: string
  username :: string
  email :: string
  phone :: string
  address1 :: string
  city :: string
  state :: string
  zip :: string

record OSINTHit =
  site :: string
  title :: string
  snippet :: string
  url :: string
  raw :: pydict

definition mk_hit :: "string \<Rightarrow> string \<Rightarrow> string \<Rightarrow> string \<Rightarrow> pydict \<Rightarrow> OSINTHit" where
  "mk_hit s t sn u r = \<lparr>site = s, title = t, snippet = sn, url = u, raw = r\<rparr>"

definition full_name :: "OSINTQuery \<Rightarrow> string" where
  "full_name q = join '' '' (filter (\<lambda>p. p \<noteq> []) [strip (first q), strip (last q)])"

text \<open>A \<open>Dict[str, str]\<close> in insertion order.\<close>

type_synonym qdict = "(string \<times> string) list"

definition to_ordered_dict :: "OSINTQuery \<Rightarrow> qdict" where
  "to_ordered_dict q =
     [(''first'', first q), (''last'', last q),
      (''username'', username q), (''email'', email q),
      (''phone'', phone q), (''address1'', address1 q),
      (''city'', city q), (''state'', state q), (''zip'', zip q)]"

definition digits_only :: "string \<Rightarrow> string" where
  "digits_only s = filter is_digit s"

section \<open>Catalog\<close>

definition ENGINES :: "(string \<times> string) list" where
  "ENGINES =
     [(''DuckDuckGo'', ''https://duckduckgo.com/?q=''),
      (''Google'', ''https://www.google.com/search?q=''),
      (''Brave'', ''https://search.brave.com/search?q=''),
      (''Bing'', ''https://www.bing.com/search?q=''),
      (''Yandex'', ''https://yandex.com/search/?text=''),
      (''Baidu'', ''https://www.baidu.com/s?wd=''),
      (''ZoomEye'', ''https://www.zoomeye.ai/search?q=''),
      (''DogPile'', ''https://www.dogpile.com/serp?q='')]"

definition reverse_phone_sites :: "string list" where
  "reverse_phone_sites =
     [''Whitepages (Free Search)'', ''411.com'', ''AnyWho'', ''WhoCallsMe'', ''SpyDialer'',
      ''CallerName'', ''OKCaller'', ''Sync.me'', ''NumLookup'', ''ReversePhoneLookup'']"

definition property_sites :: "string list" where
  "property_sites =
     [''Zillow'', ''Rehold'', ''NeighborWho'', ''HomeFacts'', ''Melissa Address Lookup'',
      ''PropertyShark'', ''Netronline Public Records'', ''PublicRecords360'',
      ''AddressSearch.com'', ''HOMES.com'']"

text \<open>
  \<open>CATS\<close>: the category names in their order; only the two categories above are
  looked up by name in the engine.
\<close>

definition CATS :: "(string \<times> string list) list" where
  "CATS =
     [(''People Search'',
        [''FastPeopleSearch'', ''TruePeopleSearch'', ''TruePeopleSearch.io'',
         ''FastBackgroundCheck'', ''That'' @ rsquo @ ''sThem'', ''FamilyTreeNow'',
         ''ZabaSearch'', ''Radaris'', ''NeighborReport'', ''Nuwber'']),
      (''Reverse Phone / Address'', reverse_phone_sites),
      (''Property Records & Accessor'', property_sites),
      (''Court/Criminal/Gov'',
        [''PACER (federal index)'', ''VINELink'', ''BOP Inmate Locator'',
         ''State/County Court Directory'', ''InmateAid'', ''State Prison Inmate Locators'',
         ''Offender Search'', ''Arrests.org'', ''Mugshots.com'', ''BustedMugshots'']),
      (''Specialized / Extra'',
        [''PeekYou'', ''Pipl (preview)'', ''Social Searcher'', ''Username Search'',
         ''instant username search'', ''IDcrawl'', ''Username Pack (direct)'', ''Hunter.io'',
         ''EmailHippo'', ''HaveIBeenPwned'', ''BlackBookOnline'', ''DataAxle Reference'',
         ''USPhoneBook'']),
      (''Worldwide'',
        [''SearchSystems'', ''GestolenObjectenRegister'', ''RDW-OVI'', ''PeopleSearch AU'',
         ''QKenteken'', ''KVK Zoeken'', ''Sportradar'', ''Weibo'', ''HKU DataHub'',
         ''OpenStreetMap''])]"

text \<open>\<open>CATS.get(name, [])\<close>.\<close>

definition cats_get :: "string \<Rightarrow> string list" where
  "cats_get name = (case map_of CATS name of None \<Rightarrow> [] | Some l \<Rightarrow> l)"

text \<open>\<open>SITE_DOMAIN\<close>: a value \<open>None\<close> is a key present with no domain.\<close>

definition SITE_DOMAIN :: "(string \<times> string option) list" where
  "SITE_DOMAIN =
     [(''FastPeopleSearch'', Some ''fastpeoplesearch.com''),
      (''TruePeopleSearch'', Some ''truepeoplesearch.com''),
      (''TruePeopleSearch.io'', Some ''truepeoplesearch.io''),
      (''FastBackgroundCheck'', Some ''fastbackgroundcheck.com''),
      (''That'' @ rsquo @ ''sThem'', Some ''thatsthem.com''),
      (''FamilyTreeNow'', Some ''familytreenow.com''),
      (''ZabaSearch'', Some ''zabasearch.com''),
      (''Radaris'', Some ''radaris.com''),
      (''NeighborReport'', None),
      (''Nuwber'', Some ''nuwber.com''),
      (''Whitepages (Free Search)'', Some ''whitepages.com''),
      (''411.com'', Some ''411.com''),
      (''AnyWho'', Some ''anywho.com''),
      (''WhoCallsMe'', Some ''whocallsme.com''),
      (''SpyDialer'', Some ''spydialer.com''),
      (''CallerName'', None),
      (''OKCaller'', Some ''okcaller.com''),
      (''Sync.me'', Some ''sync.me''),
      (''NumLookup'', Some ''numlookup.com''),
      (''ReversePhoneLookup'', Some ''reversephonelookup.com''),
      (''Zillow'', Some ''zillow.com''),
      (''Rehold'', Some ''rehold.com''),
      (''NeighborWho'', Some ''neighborwho.com''),
      (''HomeFacts'', Some ''homefacts.com''),
      (''Melissa Address Lookup'', Some ''melissa.com''),
      (''PropertyShark'', Some ''propertyshark.com''),
      (''Netronline Public Records'', Some ''netronline.com''),
      (''PublicRecords360'', Some ''publicrecords360.com''),
      (''AddressSearch.com'', Some ''addresssearch.com''),
      (''HOMES.com'', Some ''homes.com''),
      (''PACER (federal index)'', Some ''pacer.uscourts.gov''),
      (''VINELink'', Some ''vinelink.vineapps.com''),
      (''BOP Inmate Locator'', Some ''bop.gov''),
      (''State/County Court Directory'', None),
      (''InmateAid'', Some ''inmateaid.com''),
      (''State Prison Inmate Locators'', None),
      (''Offender Search'', Some ''nsopw.gov''),
      (''Arrests.org'', Some ''arrests.org''),
      (''Mugshots.com'', Some ''mugshots.com''),
      (''BustedMugshots'', Some ''bustedmugshots.com''),
      (''PeekYou'', Some ''peekyou.com''),
      (''Pipl (preview)'', Some ''pipl.com''),
      (''Social Searcher'', Some ''social-searcher.com''),
      (''Username Search'', Some ''usersearch.org''),
      (''instant username search'', Some ''instantusername.com''),
      (''IDcrawl'', Some ''idcrawl.com/username-search''),
      (''Username Pack (direct)'', None),
      (''Hunter.io'', Some ''hunter.io''),
      (''EmailHippo'', Some ''emailhippo.com''),
      (''HaveIBeenPwned'', Some ''haveibeenpwned.com''),
      (''BlackBookOnline'', Some ''blackbookonline.info''),
      (''DataAxle Reference'', Some ''referenceusa.com''),
      (''USPhoneBook'', Some ''usphonebook.com''),
      (''SearchSystems'', Some ''searchsystems.net''),
      (''GestolenObjectenRegister'', Some ''gestolenobjectenregister.nl''),
      (''RDW-OVI'', Some ''ovi.rdw.nl''),
      (''PeopleSearch AU'', Some ''peoplesearch.com.au''),
      (''QKenteken'', Some ''qenteken.nl''),
      (''KVK Zoeken'', Some ''kvk.nl''),
      (''Sportradar'', Some ''sportradar.com''),
      (''Weibo'', Some ''weibo.com''),
      (''HKU DataHub'', Some ''datahub.hku.hk''),
      (''OpenStreetMap'', Some ''openstreetmap.org'')]"

text \<open>
  \<open>SITE_DOMAIN.get(site)\<close> followed by its truth test: a missing key, a \<open>None\<close>
  value and an empty string all count as no domain.
\<close>

definition site_domain :: "string \<Rightarrow> string option" where
  "site_domain s =
     (case map_of SITE_DOMAIN s of
        None \<Rightarrow> None
      | Some None \<Rightarrow> None
      | Some (Some d) \<Rightarrow> (if d = [] then None else Some d))"

definition SITE_URL :: "(string \<times> string) list" where
  "SITE_URL =
     [(''SearchSystems'', ''https://publicrecords.searchsystems.net/''),
      (''GestolenObjectenRegister'', ''https://gestolenobjectenregister.nl/''),
      (''RDW-OVI'', ''https://ovi.rdw.nl/''),
      (''PeopleSearch AU'', ''https://peoplesearch.com.au/''),
      (''QKenteken'', ''https://www.qenteken.nl/''),
      (''KVK Zoeken'', ''https://www.kvk.nl/zoeken/''),
      (''Sportradar'', ''https://sportradar.com/''),
      (''Weibo'', ''https://s.weibo.com/''),
      (''HKU DataHub'', ''https://datahub.hku.hk/''),
      (''OpenStreetMap'', ''https://www.openstreetmap.org/'')]"

definition PRIORITY_SITES :: "string list" where
  "PRIORITY_SITES =
     [''Username Pack (direct)'', ''FamilyTreeNow'', ''WhoCallsMe'', ''HaveIBeenPwned'']"

definition site_base_url :: "string \<Rightarrow> string option" where
  "site_base_url s =
     (case map_of SITE_URL s of
        Some u \<Rightarrow> Some u
      | None \<Rightarrow> (case site_domain s of None \<Rightarrow> None | Some d \<Rightarrow> Some (''https://'' @ d)))"

section \<open>Dispatch order\<close>

definition prioritized :: "string list \<Rightarrow> string list" where
  "prioritized sites = filter (\<lambda>s. s \<in> set sites) PRIORITY_SITES"

definition remaining :: "string list \<Rightarrow> string list" where
  "remaining sites = filter (\<lambda>s. s \<notin> set (prioritized sites)) sites"

definition ordered_sites :: "string list \<Rightarrow> string list" where
  "ordered_sites sites = prioritized sites @ remaining sites"

definition is_priority :: "string \<Rightarrow> bool" where
  "is_priority s = (s \<in> set PRIORITY_SITES)"

text \<open>
  The dispatch order in the specification's words: the priority sources in their
  original relative order, then the remaining sources in their original relative order.
\<close>

definition spec_dispatch_order :: "string list \<Rightarrow> string list" where
  "spec_dispatch_order sites =
     filter is_priority sites @ filter (\<lambda>s. \<not> is_priority s) sites"


section \<open>JSON text\<close>

text \<open>
  \<open>json.dumps\<close> with its default separators, for the two settings the engine uses:
  \<open>ensure_ascii\<close> (escape everything outside the printable ASCII range, decoding the
  UTF-8 bytes to code points first) and \<open>sort_keys\<close>.
\<close>

definition rarr :: string where
  "rarr = [CHR 0xE2, CHR 0x86, CHR 0x92]"

definition mdash :: string where
  "mdash = [CHR 0xE2, CHR 0x80, CHR 0x94]"

definition dquote :: string where
  "dquote = [CHR 0x22]"

definition bslash :: string where
  "bslash = [CHR 0x5C]"

function show_nat :: "nat \<Rightarrow> string" where
  "show_nat n = (if n < 10 then [hex_lower n] else show_nat (n div 10) @ [hex_lower (n mod 10)])"
  by pat_completeness auto
termination
  by (relation "measure id") auto

definition show_int :: "int \<Rightarrow> string" where
  "show_int i = (if i < 0 then ''-'' @ show_nat (nat (- i)) else show_nat (nat i))"

definition hex4 :: "nat \<Rightarrow> string" where
  "hex4 n = [hex_lower (n div 4096), hex_lower (n div 256), hex_lower (n div 16), hex_lower n]"

definition u_escape :: "nat \<Rightarrow> string" where
  "u_escape cp =
     (if cp < 65536 then bslash @ ''u'' @ hex4 cp
      else (let v = cp - 65536 in
            bslash @ ''u'' @ hex4 (55296 + v div 1024) @ bslash @ ''u'' @ hex4 (56320 + v mod 1024)))"

definition short_escape :: "nat \<Rightarrow> string option" where
  "short_escape n =
     (if n = 34 then Some (bslash @ dquote)
      else if n = 92 then Some (bslash @ bslash)
      else if n = 10 then Some (bslash @ ''n'')
      else if n = 13 then Some (bslash @ ''r'')
      else if n = 9 then Some (bslash @ ''t'')
      else if n = 8 then Some (bslash @ ''b'')
      else if n = 12 then Some (bslash @ ''f'')
      else None)"

fun utf8_decode :: "string \<Rightarrow> nat list" where
  "utf8_decode [] = []"
| "utf8_decode [a] = [of_char a]"
| "utf8_decode [a, b] =
     (let n = (of_char a :: nat) in
      if n < 128 then n # utf8_decode [b]
      else [(n mod 32) * 64 + (of_char b) mod 64])"
| "utf8_decode [a, b, c] =
     (let n = (of_char a :: nat) in
      if n < 128 then n # utf8_decode [b, c]
      else if n < 224 then ((n mod 32) * 64 + (of_char b) mod 64) # utf8_decode [c]
      else [(n mod 16) * 4096 + ((of_char b) mod 64) * 64 + (of_char c) mod 64])"
| "utf8_decode (a # b # c # d # r) =
     (let n = (of_char a :: nat) in
      if n < 128 then n # utf8_decode (b # c # d # r)
      else if n < 224 then ((n mod 32) * 64 + (of_char b) mod 64) # utf8_decode (c # d # r)
      else if n < 240 then
        ((n mod 16) * 4096 + ((of_char b) mod 64) * 64 + (of_char c) mod 64) # utf8_decode (d # r)
      else ((n mod 8) * 262144 + ((of_char b) mod 64) * 4096 + ((of_char c) mod 64) * 64
              + (of_char d) mod 64) # utf8_decode r)"

definition escape_ascii_cp :: "nat \<Rightarrow> string" where
  "escape_ascii_cp cp =
     (case short_escape cp of
        Some e \<Rightarrow> e
      | None \<Rightarrow> (if 32 \<le> cp \<and> cp \<le> 126 then [char_of cp] else u_escape cp))"

definition escape_byte :: "char \<Rightarrow> string" where
  "escape_byte c =
     (let n = (of_char c :: nat) in
      case short_escape n of
        Some e \<Rightarrow> e
      | None \<Rightarrow> (if n < 32 then u_escape n else [c]))"

definition json_string :: "bool \<Rightarrow> string \<Rightarrow> string" where
  "json_string ensure_ascii s =
     dquote @ (if ensure_ascii then concat (map escape_ascii_cp (utf8_decode s))
              else concat (map escape_byte s)) @ dquote"

fun json_dumps :: "bool \<Rightarrow> bool \<Rightarrow> pyval \<Rightarrow> string" where
  "json_dumps ea sk PNone = ''null''"
| "json_dumps ea sk (PBool b) = (if b then ''true'' else ''false'')"
| "json_dumps ea sk (PInt i) = show_int i"
| "json_dumps ea sk (PStr s) = json_string ea s"
| "json_dumps ea sk (PList xs) = ''['' @ join '', '' (map (json_dumps ea sk) xs) @ '']''"
| "json_dumps ea sk (PDict kvs) =
     (let rendered = map (\<lambda>kv. (fst kv, json_dumps ea sk (snd kv))) kvs in
      ''{'' @ join '', ''
        (map (\<lambda>kr. json_string ea (fst kr) @ '': '' @ snd kr)
           (if sk then sort_key fst rendered else rendered)) @ ''}'')"


section \<open>Cache store\<close>

text \<open>
  The canonical payload is the JSON text of the nine-field dictionary with sorted keys;
  the key is its SHA-256 digest in hexadecimal. The digest function is a parameter
  (\<open>hexdigest\<close>) of everything that touches the cache: no property below depends on
  which function it is.
\<close>

definition canonical_payload :: "qdict \<Rightarrow> string" where
  "canonical_payload d = json_dumps False True (PDict (map (\<lambda>kv. (fst kv, PStr (snd kv))) d))"

definition cache_key_for_dict :: "(string \<Rightarrow> string) \<Rightarrow> qdict \<Rightarrow> string" where
  "cache_key_for_dict hexdigest d = hexdigest (canonical_payload d)"

definition cache_key_for_query :: "(string \<Rightarrow> string) \<Rightarrow> OSINTQuery \<Rightarrow> string" where
  "cache_key_for_query hexdigest q = cache_key_for_dict hexdigest (to_ordered_dict q)"

definition CACHE_DIR :: string where
  "CACHE_DIR = ''reports/cache''"

definition cache_path_for_query :: "(string \<Rightarrow> string) \<Rightarrow> OSINTQuery \<Rightarrow> string" where
  "cache_path_for_query hexdigest q =
     CACHE_DIR @ ''/'' @ cache_key_for_query hexdigest q @ ''.json''"

text \<open>
  The file system, as far as the cache sees it. A file holds either a JSON document
  (the value \<open>json.load\<close> returns for it) or text that does not parse. \<open>json.dump\<close>
  and \<open>json.load\<close> are modelled at the level of the document, not of its characters.
  Paths in \<open>unwritable\<close> cannot be created, overwritten or removed: opening them for
  writing raises.
\<close>

datatype file_content = JsonDoc pyval | Unparseable

record filesystem =
  files :: "string \<rightharpoonup> file_content"
  unwritable :: "string set"

text \<open>\<open>dataclasses.asdict\<close> on a hit.\<close>

definition asdict :: "OSINTHit \<Rightarrow> pyval" where
  "asdict h =
     PDict [(''site'', PStr (site h)), (''title'', PStr (title h)),
            (''snippet'', PStr (snippet h)), (''url'', PStr (url h)),
            (''raw'', PDict (raw h))]"

text \<open>
  \<open>OSINTHit(**h)\<close>: \<open>h\<close> must be a dictionary with exactly the five field names
  as keys, otherwise the constructor raises (\<open>None\<close> here). The record's fields are
  typed, so a document whose field values are not four strings and a dictionary is
  outside the model and is treated as unreadable too.
\<close>

definition hit_of_json :: "pyval \<Rightarrow> OSINTHit option" where
  "hit_of_json v =
     (case v of
        PDict kvs \<Rightarrow>
          (if distinct (map fst kvs)
              \<and> set (map fst kvs) = {''site'', ''title'', ''snippet'', ''url'', ''raw''}
           then (case (map_of kvs ''site'', map_of kvs ''title'', map_of kvs ''snippet'',
                       map_of kvs ''url'', map_of kvs ''raw'') of
                   (Some (PStr s), Some (PStr t), Some (PStr sn), Some (PStr u), Some (PDict r)) \<Rightarrow>
                     Some (mk_hit s t sn u r)
                 | _ \<Rightarrow> None)
           else None)
      | _ \<Rightarrow> None)"

text \<open>All the hits of a list of documents, or \<open>None\<close> as soon as one fails.\<close>

fun hits_of_json :: "pyval list \<Rightarrow> OSINTHit list option" where
  "hits_of_json [] = Some []"
| "hits_of_json (v # vs) =
     (case hit_of_json v of
        None \<Rightarrow> None
      | Some h \<Rightarrow> (case hits_of_json vs of None \<Rightarrow> None | Some hs \<Rightarrow> Some (h # hs)))"

text \<open>
  \<open>load_cache\<close>: a missing file, an unparseable file and a document that is not a list
  of hit dictionaries all give the empty list.
\<close>

definition load_cache :: "(string \<Rightarrow> string) \<Rightarrow> filesystem \<Rightarrow> OSINTQuery \<Rightarrow> OSINTHit list" where
  "load_cache hexdigest fs q =
     (case files fs (cache_path_for_query hexdigest q) of
        None \<Rightarrow> []
      | Some Unparseable \<Rightarrow> []
      | Some (JsonDoc (PList data)) \<Rightarrow>
          (case hits_of_json data of None \<Rightarrow> [] | Some hs \<Rightarrow> hs)
      | Some (JsonDoc _) \<Rightarrow> [])"

text \<open>\<open>save_cache\<close> returns the new file system and the path written, or \<open>''''\<close>.\<close>

definition save_cache ::
  "(string \<Rightarrow> string) \<Rightarrow> filesystem \<Rightarrow> OSINTQuery \<Rightarrow> OSINTHit list \<Rightarrow> filesystem \<times> string" where
  "save_cache hexdigest fs q hits =
     (let path = cache_path_for_query hexdigest q in
      if path \<in> unwritable fs then (fs, [])
      else (fs\<lparr>files := (files fs)(path \<mapsto> JsonDoc (PList (map asdict hits)))\<rparr>, path))"

definition clear_cache_for_query ::
  "(string \<Rightarrow> string) \<Rightarrow> filesystem \<Rightarrow> OSINTQuery \<Rightarrow> filesystem \<times> bool" where
  "clear_cache_for_query hexdigest fs q =
     (let p = cache_path_for_query hexdigest q in
      if files fs p \<noteq> None \<and> p \<notin> unwritable fs
      then (fs\<lparr>files := (files fs)(p := None)\<rparr>, True)
      else (fs, False))"

section \<open>Exceptions\<close>

text \<open>
  The exceptions the engine distinguishes, each with its message (\<open>str(e)\<close>):
  the executor's \<open>TimeoutError\<close>, \<open>NotImplementedError\<close>, and any other
  \<open>Exception\<close>. Interpreter exits and interrupts are not modelled.
\<close>

datatype py_exc = TimeoutError string | NotImplementedError string | OtherError string

fun exc_str :: "py_exc \<Rightarrow> string" where
  "exc_str (TimeoutError m) = m"
| "exc_str (NotImplementedError m) = m"
| "exc_str (OtherError m) = m"

section \<open>Dataset provider (datasets.py)\<close>

text \<open>
  A hit dictionary as a provider returns it. A field is \<open>None\<close> when the key is
  absent (the provider's hint entry has no \<open>raw\<close> key).
\<close>

record rawhit =
  rh_site :: "string option"
  rh_title :: "string option"
  rh_snippet :: "string option"
  rh_url :: "string option"
  rh_raw :: "pydict option"

record site_entry =
  se_label :: string
  se_domain :: "string option"

definition mk_rawhit ::
  "string \<Rightarrow> string \<Rightarrow> string \<Rightarrow> string \<Rightarrow> pydict option \<Rightarrow> rawhit" where
  "mk_rawhit s t sn u r =
     \<lparr>rh_site = Some s, rh_title = Some t, rh_snippet = Some sn, rh_url = Some u, rh_raw = r\<rparr>"

text \<open>\<open>d.get(k, "")\<close> on a query dictionary.\<close>

definition qget :: "qdict \<Rightarrow> string \<Rightarrow> string" where
  "qget d k = (case map_of d k of None \<Rightarrow> [] | Some v \<Rightarrow> v)"

text \<open>The truth test of an \<open>Optional[str]\<close>: present and not empty.\<close>

definition truthy :: "string option \<Rightarrow> bool" where
  "truthy x = (case x of None \<Rightarrow> False | Some s \<Rightarrow> s \<noteq> [])"

definition search_engines :: "(string \<times> string) list" where
  "search_engines =
     [(''DuckDuckGo'', ''https://duckduckgo.com/?q=''),
      (''Google'', ''https://www.google.com/search?q=''),
      (''Bing'', ''https://www.bing.com/search?q=''),
      (''GitHub code'', ''https://github.com/search?q='')]"

definition link_tokens :: "qdict \<Rightarrow> string list" where
  "link_tokens q =
     (let fullname = strip (join '' '' [strip (qget q ''first''), strip (qget q ''last'')]) in
      (if fullname \<noteq> [] then [dquote @ fullname @ dquote] else [])
      @ (if qget q ''username'' \<noteq> [] then [qget q ''username''] else [])
      @ (if qget q ''email'' \<noteq> [] then [qget q ''email''] else [])
      @ (if qget q ''phone'' \<noteq> [] then [filter is_digit (qget q ''phone'')] else []))"

definition link_dork :: "string \<Rightarrow> string option \<Rightarrow> string list \<Rightarrow> string" where
  "link_dork site_label site_dom toks =
     (case site_dom of
        Some d \<Rightarrow>
          (if d \<noteq> [] then
             (if toks \<noteq> [] then join '' '' ((''site:'' @ d) # toks) else ''site:'' @ d)
           else (if toks \<noteq> [] then join '' '' toks else site_label))
      | None \<Rightarrow> (if toks \<noteq> [] then join '' '' toks else site_label))"

definition construct_search_links_for_site ::
  "string \<Rightarrow> string option \<Rightarrow> qdict \<Rightarrow> rawhit list" where
  "construct_search_links_for_site site_label site_dom q =
     (let toks = link_tokens q;
          dork = link_dork site_label site_dom toks in
      map (\<lambda>nb. mk_rawhit ''Search Link'' (fst nb @ '' search'') dork
                  (snd nb @ (if fst nb \<noteq> ''GitHub code'' then quote_plus dork
                             else quote_plus (join '' '' toks)))
                  (Some [(''engine'', PStr (fst nb))]))
          search_engines
      @ [mk_rawhit ''Hint'' ''Common Crawl (index) / BigQuery hint''
           ''Use Common Crawl index or BigQuery to fetch page text; BigQuery can be queried from console''
           ''https://commoncrawl.org/'' None])"

text \<open>
  The two network lookups (Wayback CDX, crt.sh) are parameters: given a domain and a
  limit, each returns hit dictionaries or raises.
\<close>

record network =
  find_wayback_snapshots :: "string \<Rightarrow> nat \<Rightarrow> py_exc + rawhit list"
  find_crtsh_certificates :: "string \<Rightarrow> nat \<Rightarrow> py_exc + rawhit list"

definition opt_str :: "string option \<Rightarrow> string" where
  "opt_str x = (case x of None \<Rightarrow> [] | Some s \<Rightarrow> s)"

definition search_for_site ::
  "network \<Rightarrow> string \<Rightarrow> string option \<Rightarrow> qdict \<Rightarrow> py_exc + rawhit list" where
  "search_for_site net site_label site_dom qd =
     (case (if truthy site_dom then find_wayback_snapshots net (opt_str site_dom) 4 else Inr []) of
        Inl e \<Rightarrow> Inl e
      | Inr wb \<Rightarrow>
          (case (if truthy site_dom \<and> CHR ''.'' \<in> set (opt_str site_dom)
                 then find_crtsh_certificates net (opt_str site_dom) 4 else Inr []) of
             Inl e \<Rightarrow> Inl e
           | Inr certs \<Rightarrow>
               Inr (map (\<lambda>r. r\<lparr>rh_site := Some (site_label @ '' (Wayback)'')\<rparr>) wb
                    @ map (\<lambda>c. c\<lparr>rh_site := Some (site_label @ '' (crt.sh)'')\<rparr>) certs
                    @ map (\<lambda>l. l\<lparr>rh_site := Some (site_label @ '' (Search link)'')\<rparr>)
                        (construct_search_links_for_site site_label site_dom qd))))"

text \<open>The batch entry point: a site whose lookup raises is skipped.\<close>

fun datasets_search_sites_for_query ::
  "network \<Rightarrow> site_entry list \<Rightarrow> qdict \<Rightarrow> rawhit list" where
  "datasets_search_sites_for_query net [] qd = []"
| "datasets_search_sites_for_query net (s # ss) qd =
     (case search_for_site net (se_label s) (se_domain s) qd of
        Inl e \<Rightarrow> datasets_search_sites_for_query net ss qd
      | Inr hits \<Rightarrow> hits @ datasets_search_sites_for_query net ss qd)"

section \<open>Scraper registry (scrapers.py)\<close>

text \<open>
  A scraper is a capability \<open>(session, query) \<rightarrow> hits\<close>. What one invocation does is
  the wall-clock time it takes, in seconds, and its outcome: the hits it returns, or the
  exception it raises. An invocation may also never end: then \<open>elapsed\<close> is \<open>None\<close>
  and the outcome is never observed. The session only carries configuration and is left
  out.
\<close>

datatype scraper_outcome = Returns "OSINTHit list" | Raises py_exc

record scraper_run =
  elapsed :: "real option"
  outcome :: scraper_outcome

type_synonym scraper = "OSINTQuery \<Rightarrow> scraper_run"

type_synonym registry = "(string \<times> scraper) list"

text \<open>
  \<open>run_scraper\<close>, with its result typed so that a propagated exception would be a
  value (\<open>Inl\<close>).
\<close>

definition run_scraper :: "registry \<Rightarrow> string \<Rightarrow> OSINTQuery \<Rightarrow> py_exc + OSINTHit list" where
  "run_scraper reg st q =
     (case map_of reg st of
        None \<Rightarrow> Inr []
      | Some fn \<Rightarrow>
          (case outcome (fn q) of
             Returns hits \<Rightarrow> Inr hits
           | Raises (NotImplementedError m) \<Rightarrow> Inr []
           | Raises e \<Rightarrow> Inr []))"

text \<open>
  The time a call of \<open>run_scraper\<close> takes: that of the scraper it invokes, \<open>None\<close>
  when that invocation never ends.
\<close>

definition run_scraper_time :: "registry \<Rightarrow> string \<Rightarrow> OSINTQuery \<Rightarrow> real option" where
  "run_scraper_time reg st q =
     (case map_of reg st of None \<Rightarrow> Some 0 | Some fn \<Rightarrow> elapsed (fn q))"

section \<open>Fallback links\<close>

definition engine_guard :: "string \<Rightarrow> string" where
  "engine_guard e = (if map_of ENGINES e \<noteq> None then e else ''DuckDuckGo'')"

definition dork_tokens :: "string \<Rightarrow> OSINTQuery \<Rightarrow> string list" where
  "dork_tokens site_label q =
     (let name_tok = (if full_name q \<noteq> [] then [dquote @ full_name q @ dquote] else []);
          phone_tok = (if phone q \<noteq> [] then [digits_only (phone q)] else []);
          addr_toks = (if address1 q \<noteq> [] then [dquote @ address1 q @ dquote] else [])
                      @ (if city q \<noteq> [] then [city q] else [])
                      @ (if state q \<noteq> [] then [state q] else [])
                      @ (if zip q \<noteq> [] then [zip q] else []);
          email_tok = (if email q \<noteq> [] then [email q] else []);
          user_tok = (if username q \<noteq> [] then [username q] else [])
      in if site_label \<in> set (cats_get ''Property Records & Accessor'')
         then addr_toks @ name_tok @ phone_tok @ email_tok @ user_tok
         else if site_label \<in> set (cats_get ''Reverse Phone / Address'')
         then phone_tok @ name_tok @ addr_toks @ email_tok @ user_tok
         else name_tok @ user_tok @ email_tok @ phone_tok @ addr_toks)"

definition dork_url :: "string \<Rightarrow> OSINTQuery \<Rightarrow> string \<Rightarrow> string" where
  "dork_url site_label q engine =
     (let parts = (case site_domain site_label of None \<Rightarrow> [] | Some d \<Rightarrow> [''site:'' @ d])
                  @ dork_tokens site_label q;
          query_str = (if parts \<noteq> [] then join '' '' parts
                       else (case site_domain site_label of None \<Rightarrow> site_label | Some d \<Rightarrow> d));
          base = (case map_of ENGINES engine of
                    Some b \<Rightarrow> b
                  | None \<Rightarrow> ''https://duckduckgo.com/?q='')
      in base @ quote_plus query_str)"

section \<open>Events and the world a run acts on\<close>

text \<open>
  The status notes put on the UI queue. Each constructor stands for one message
  template of the source and carries the values interpolated into it.
\<close>

datatype ui_note =
    NoteCacheLoaded nat
  | NoteCacheCleared
  | NoteRunningDatasets
  | NoteSkippingDatasets string
  | NoteDatasetsFailed string string
  | NoteDatasetsSkip string string
  | NoteDatasetsSatisfied "string list"
  | NoteNoDatasetHits
  | NoteAllSatisfied
  | NoteSavedCache nat
  | NoteSavedReports
  | NoteSiteHits string nat
  | NoteProvidedLinks string
  | NoteTimeoutLinks string
  | NoteErrorLinks string
  | NoteNoResults
  | NoteRegistered "string list"

datatype ui_event =
    Note ui_note
  | Hit OSINTHit
  | SetupProgress nat
  | IncProgress nat
  | Done nat

text \<open>
  The invocations of external collaborators a run issues, in order: a call of the
  dataset provider for a source, and a scraper invocation for a source with its
  timeout budget.
\<close>

datatype call = DatasetCall string qdict | ScraperCall string int

record world =
  disk :: filesystem
  ui_queue :: "ui_event list"
  calls :: "call list"
  reports :: "OSINTHit list list"

text \<open>
  What the run is given from outside: the digest function, the dataset provider (its
  single-site entry point when the module has one, and its batch entry point), the
  scraper registry, and whether building a network session raises.
\<close>

record env =
  sha256_hexdigest :: "string \<Rightarrow> string"
  search_site_for_query :: "(site_entry \<Rightarrow> qdict \<Rightarrow> py_exc + rawhit list) option"
  search_sites_for_query :: "site_entry list \<Rightarrow> qdict \<Rightarrow> py_exc + rawhit list"
  SCRAPERS :: registry
  get_session :: "py_exc option"

text \<open>The input widgets the run reads.\<close>

record app =
  var_query :: OSINTQuery
  threads_var :: int
  timeout_var :: int
  engine_var :: string

definition put :: "ui_event \<Rightarrow> world \<Rightarrow> world" where
  "put e w = w\<lparr>ui_queue := ui_queue w @ [e]\<rparr>"

definition record_call :: "call \<Rightarrow> world \<Rightarrow> world" where
  "record_call c w = w\<lparr>calls := calls w @ [c]\<rparr>"

text \<open>\<open>save_reports\<close>: the three report files of a run, kept as the hit list written.\<close>

definition save_reports :: "OSINTHit list \<Rightarrow> world \<Rightarrow> world" where
  "save_reports hits w = w\<lparr>reports := reports w @ [hits]\<rparr>"

section \<open>One scraper task\<close>

text \<open>
  \<open>_run_site_with_timeout\<close>: the scraper runs in an executor of its own and its
  result is awaited for at most \<open>timeout\<close> seconds. The executor is a context
  manager: leaving its block, also by the \<open>TimeoutError\<close>, waits for the scraper's
  thread to end. So the function returns (or raises) only once the invocation has ended,
  and never when the invocation never ends: the result is \<open>None\<close> then.
\<close>

definition run_site_with_timeout ::
  "env \<Rightarrow> string \<Rightarrow> OSINTQuery \<Rightarrow> int \<Rightarrow> world \<Rightarrow> (world \<times> (py_exc + OSINTHit list)) option" where
  "run_site_with_timeout ev st q timeout w =
     (case get_session ev of
        Some e \<Rightarrow> Some (w, Inl e)
      | None \<Rightarrow>
          (let w1 = record_call (ScraperCall st timeout) w in
           case run_scraper_time (SCRAPERS ev) st q of
             None \<Rightarrow> None
           | Some d \<Rightarrow>
               (if real_of_int timeout < d
                then Some (w1, Inl (TimeoutError []))
                else (case run_scraper (SCRAPERS ev) st q of
                        Inr hits \<Rightarrow> Some (w1, Inr hits)
                      | Inl (TimeoutError m) \<Rightarrow> Some (w1, Inl (TimeoutError m))
                      | Inl (NotImplementedError m) \<Rightarrow> Some (w1, Inr [])
                      | Inl (OtherError m) \<Rightarrow> Some (w1, Inr [])))))"

text \<open>The running state of the scheduler: the world and the \<open>results\<close> list.\<close>

type_synonym run_state = "world \<times> OSINTHit list"

definition emit_hit :: "OSINTHit \<Rightarrow> run_state \<Rightarrow> run_state" where
  "emit_hit h s = (put (Hit h) (fst s), snd s @ [h])"

definition put_note :: "ui_note \<Rightarrow> run_state \<Rightarrow> run_state" where
  "put_note n s = (put (Note n) (fst s), snd s)"

text \<open>
  The hits a finished task contributes, by outcome: the scraper's hits, or the fallback
  links (home page when a base URL is known, then the search dork).
\<close>

definition task_hits ::
  "string \<Rightarrow> OSINTQuery \<Rightarrow> string \<Rightarrow> int \<Rightarrow> py_exc + OSINTHit list \<Rightarrow> OSINTHit list" where
  "task_hits st q engine used_timeout res =
     (let home = site_base_url st;
          dork = dork_url st q engine in
      case res of
        Inr hits \<Rightarrow>
          (if hits \<noteq> [] then hits
           else (if truthy home
                 then [mk_hit st (st @ '' (open site)'')
                         (''No scraper results '' @ mdash @ '' open site.'')
                         (opt_str home) [(''fallback'', PStr ''home'')]]
                 else [])
                @ [mk_hit st (st @ '' (search dork)'')
                     (''No scraper results '' @ mdash @ '' try search.'')
                     dork [(''fallback'', PStr ''dork'')]])
      | Inl (TimeoutError m) \<Rightarrow>
          (if truthy home
           then [mk_hit st (st @ '' (timeout'' @ rarr @ ''open site)'')
                   (''Timed out after '' @ show_int used_timeout @ ''s'')
                   (opt_str home) [(''timeout'', PBool True), (''fallback'', PStr ''home'')]]
           else [])
          @ [mk_hit st (st @ '' (timeout'' @ rarr @ ''dork)'')
               (''Timed out after '' @ show_int used_timeout @ ''s'')
               dork [(''timeout'', PBool True), (''fallback'', PStr ''dork'')]]
      | Inl e \<Rightarrow>
          (if truthy home
           then [mk_hit st (st @ '' (error'' @ rarr @ ''open site)'')
                   (take 300 (exc_str e))
                   (opt_str home) [(''error'', PStr (exc_str e)), (''fallback'', PStr ''home'')]]
           else [])
          @ [mk_hit st (st @ '' (error'' @ rarr @ ''dork)'')
               (take 300 (exc_str e))
               dork [(''error'', PStr (exc_str e)), (''fallback'', PStr ''dork'')]])"

text \<open>
  The body of the completion loop for one task: its hits are appended to the results
  and put on the queue, with the note of its outcome, and one progress increment.
\<close>

definition process_result ::
  "string \<Rightarrow> OSINTQuery \<Rightarrow> string \<Rightarrow> int \<Rightarrow> py_exc + OSINTHit list \<Rightarrow> run_state \<Rightarrow> run_state" where
  "process_result st q engine used_timeout res s =
     (let hs = task_hits st q engine used_timeout res;
          s1 = (case res of
                  Inr hits \<Rightarrow>
                    (if hits \<noteq> [] then fold emit_hit hs (put_note (NoteSiteHits st (length hits)) s)
                     else put_note (NoteProvidedLinks st) (fold emit_hit hs s))
                | Inl (TimeoutError m) \<Rightarrow> put_note (NoteTimeoutLinks st) (fold emit_hit hs s)
                | Inl e \<Rightarrow> put_note (NoteErrorLinks st) (fold emit_hit hs s))
      in (put (IncProgress 1) (fst s1), snd s1))"

definition site_timeout :: "string \<Rightarrow> int \<Rightarrow> int" where
  "site_timeout st timeout = (if st = ''Username Pack (direct)'' then max timeout 20 else timeout)"

definition run_task ::
  "env \<Rightarrow> OSINTQuery \<Rightarrow> string \<Rightarrow> int \<Rightarrow> string \<Rightarrow> run_state \<Rightarrow> run_state option" where
  "run_task ev q engine timeout st s =
     (let t = site_timeout st timeout in
      case run_site_with_timeout ev st q t (fst s) of
        None \<Rightarrow> None
      | Some r \<Rightarrow> Some (process_result st q engine t (snd r) (fst r, snd s)))"

text \<open>
  The scraper pool. The completion loop ends when every task has completed, so it never
  ends when one task never does. Tasks are taken in dispatch order; the completion order
  of the source's pool may interleave the tasks differently, which permutes the blocks of
  events of different tasks and nothing else.
\<close>

fun run_pool ::
  "env \<Rightarrow> OSINTQuery \<Rightarrow> string \<Rightarrow> int \<Rightarrow> string list \<Rightarrow> run_state \<Rightarrow> run_state option" where
  "run_pool ev q engine timeout [] s = Some s"
| "run_pool ev q engine timeout (st # sts) s =
     (case run_task ev q engine timeout st s of
        None \<Rightarrow> None
      | Some s1 \<Rightarrow> run_pool ev q engine timeout sts s1)"

section \<open>Dataset prefilter\<close>

definition token_candidates :: "OSINTQuery \<Rightarrow> string list" where
  "token_candidates q =
     (if full_name q \<noteq> []
      then [lower (full_name q)]
           @ (if first q \<noteq> [] then [lower (first q)] else [])
           @ (if last q \<noteq> [] then [lower (last q)] else [])
      else [])
     @ (if username q \<noteq> [] then [lower (username q)] else [])
     @ (if email q \<noteq> [] then [lower (email q)] else [])
     @ (if phone q \<noteq> []
        then (let p_digits = digits_only (phone q) in if p_digits \<noteq> [] then [p_digits] else [])
        else [])
     @ (if address1 q \<noteq> [] then [lower (address1 q)] else [])
     @ (if city q \<noteq> [] then [lower (city q)] else [])
     @ (if state q \<noteq> [] then [lower (state q)] else [])
     @ (if zip q \<noteq> [] then [lower (zip q)] else [])"

text \<open>
  \<open>[t for i, t in enumerate(cands) if t and t not in cands[:i]]\<close>; \<open>seen\<close> is the
  prefix already passed.
\<close>

fun dedupe :: "string list \<Rightarrow> string list \<Rightarrow> string list" where
  "dedupe seen [] = []"
| "dedupe seen (t # ts) =
     (if t \<noteq> [] \<and> t \<notin> set seen then t # dedupe (seen @ [t]) ts
      else dedupe (seen @ [t]) ts)"

definition tokens :: "OSINTQuery \<Rightarrow> string list" where
  "tokens q = dedupe [] (token_candidates q)"

definition site_qdict :: "string \<Rightarrow> OSINTQuery \<Rightarrow> qdict" where
  "site_qdict s q =
     (if s \<in> set (cats_get ''Property Records & Accessor'')
      then [(''address1'', address1 q), (''city'', city q), (''state'', state q),
            (''zip'', zip q), (''first'', first q), (''last'', last q)]
      else if s \<in> set (cats_get ''Reverse Phone / Address'')
      then [(''phone'', phone q), (''first'', first q), (''last'', last q),
            (''address1'', address1 q)]
      else to_ordered_dict q)"

definition opt_raw :: "pydict option \<Rightarrow> pydict" where
  "opt_raw x = (case x of None \<Rightarrow> [] | Some r \<Rightarrow> r)"

text \<open>
  The text a candidate hit is matched against: its lower-cased title, snippet and URL
  and the lower-cased JSON text of its raw metadata, joined by single spaces.
\<close>

definition combined_text :: "rawhit \<Rightarrow> string" where
  "combined_text dh =
     join '' '' [lower (opt_str (rh_title dh)), lower (opt_str (rh_snippet dh)),
                 lower (opt_str (rh_url dh)),
                 lower (json_dumps True False (PDict (opt_raw (rh_raw dh))))]"

definition matched :: "string list \<Rightarrow> rawhit \<Rightarrow> bool" where
  "matched toks dh = list_ex (\<lambda>tok. tok \<noteq> [] \<and> contains tok (combined_text dh)) toks"

text \<open>\<open>s.split(sep)[0]\<close>: the part of \<open>s\<close> before the first occurrence of \<open>sep\<close>.\<close>

fun before_sep :: "string \<Rightarrow> string \<Rightarrow> string" where
  "before_sep sep [] = []"
| "before_sep sep (c # cs) =
     (if take (length sep) (c # cs) = sep then [] else c # before_sep sep cs)"

definition ds_site_label :: "string \<Rightarrow> rawhit \<Rightarrow> string" where
  "ds_site_label s dh = before_sep '' ('' (case rh_site dh of None \<Rightarrow> s | Some x \<Rightarrow> x)"

definition ds_hit :: "string \<Rightarrow> rawhit \<Rightarrow> OSINTHit" where
  "ds_hit s dh =
     mk_hit (ds_site_label s dh) (opt_str (rh_title dh)) (opt_str (rh_snippet dh))
       (opt_str (rh_url dh)) (opt_raw (rh_raw dh))"

record prefilter_state =
  pf_world :: world
  results_from_datasets :: "OSINTHit list"
  satisfied_sites :: "string list"

text \<open>\<open>satisfied_sites.add(x)\<close>, the set kept as a list without repetitions.\<close>

definition set_add :: "string \<Rightarrow> string list \<Rightarrow> string list" where
  "set_add x xs = (if x \<in> set xs then xs else xs @ [x])"

text \<open>
  The body of the loop over the hits a provider returned for source \<open>s\<close>. Building
  the hit from the dictionary cannot fail, so the source's handler around it is never
  entered and is left out.
\<close>

definition process_ds_hit :: "string list \<Rightarrow> string \<Rightarrow> rawhit \<Rightarrow> prefilter_state \<Rightarrow> prefilter_state" where
  "process_ds_hit toks s dh st =
     (if \<not> matched toks dh
      then st\<lparr>pf_world := put (Note (NoteDatasetsSkip s (take 200 (opt_str (rh_url dh))))) (pf_world st)\<rparr>
      else st\<lparr>pf_world := put (Hit (ds_hit s dh)) (pf_world st),
              results_from_datasets := results_from_datasets st @ [ds_hit s dh],
              satisfied_sites := set_add (ds_site_label s dh) (satisfied_sites st)\<rparr>)"

text \<open>The provider call for one source: the single-site entry point if there is one.\<close>

definition call_provider :: "env \<Rightarrow> site_entry \<Rightarrow> qdict \<Rightarrow> py_exc + rawhit list" where
  "call_provider ev entry qd =
     (case search_site_for_query ev of
        Some f \<Rightarrow> f entry qd
      | None \<Rightarrow> search_sites_for_query ev [entry] qd)"

text \<open>The body of the loop over the ordered sources.\<close>

definition prefilter_site :: "env \<Rightarrow> OSINTQuery \<Rightarrow> string list \<Rightarrow> string \<Rightarrow> prefilter_state \<Rightarrow> prefilter_state" where
  "prefilter_site ev q toks s st =
     (let site_entry = \<lparr>se_label = s, se_domain = None\<rparr>;
          qd = site_qdict s q in
      if \<not> (length toks > 0)
      then st\<lparr>pf_world := put (Note (NoteSkippingDatasets s)) (pf_world st)\<rparr>
      else (let w1 = record_call (DatasetCall s qd) (pf_world st) in
            case call_provider ev site_entry qd of
              Inl e \<Rightarrow> st\<lparr>pf_world := put (Note (NoteDatasetsFailed s (take 200 (exc_str e)))) w1\<rparr>
            | Inr ds_hits \<Rightarrow> fold (process_ds_hit toks s) ds_hits (st\<lparr>pf_world := w1\<rparr>)))"

definition dataset_prefilter :: "env \<Rightarrow> OSINTQuery \<Rightarrow> string list \<Rightarrow> world \<Rightarrow> prefilter_state" where
  "dataset_prefilter ev q ordered w =
     fold (prefilter_site ev q (tokens q)) ordered
       \<lparr>pf_world = w, results_from_datasets = [], satisfied_sites = []\<rparr>"

text \<open>The sources left for the live scrapers once the prefilter is done.\<close>

definition sites_to_scrape :: "string list \<Rightarrow> string list \<Rightarrow> string list" where
  "sites_to_scrape ordered satisfied =
     (if satisfied \<noteq> [] then filter (\<lambda>s. s \<notin> set satisfied) ordered else ordered)"

section \<open>The run\<close>

definition worker_count :: "int \<Rightarrow> int" where
  "worker_count n = max 2 (min 40 n)"

text \<open>The end of a run: cache and reports are written, the last notes and \<open>done\<close> are put.\<close>

definition persist :: "env \<Rightarrow> OSINTQuery \<Rightarrow> run_state \<Rightarrow> run_state" where
  "persist ev q s =
     (let w = fst s; results = snd s;
          w1 = (if results \<noteq> []
                then put (Note (NoteSavedCache (length results)))
                       (w\<lparr>disk := fst (save_cache (sha256_hexdigest ev) (disk w) q results)\<rparr>)
                else w);
          w2 = put (Note NoteSavedReports) (save_reports results w1)
      in (w2, results))"

text \<open>
  The start of a run that is not answered from the cache: on a bypass request the
  query's cache entry is removed first; then the progress bar is set up.
\<close>

definition begin_fresh_run :: "env \<Rightarrow> app \<Rightarrow> string list \<Rightarrow> bool \<Rightarrow> world \<Rightarrow> world" where
  "begin_fresh_run ev ap sites skip_cache w =
     (let q = var_query ap;
          w0 = (if skip_cache
                then (let c = clear_cache_for_query (sha256_hexdigest ev) (disk w) q in
                      if snd c then put (Note NoteCacheCleared) (w\<lparr>disk := fst c\<rparr>) else w)
                else w);
          total = length sites
      in put (Note NoteRunningDatasets) (put (SetupProgress total) w0))"

text \<open>The note that closes the prefilter.\<close>

definition announce_prefilter :: "prefilter_state \<Rightarrow> world" where
  "announce_prefilter pf =
     (if satisfied_sites pf \<noteq> []
      then put (Note (NoteDatasetsSatisfied (sort (satisfied_sites pf)))) (pf_world pf)
      else put (Note NoteNoDatasetHits) (pf_world pf))"

text \<open>
  The live-scrape phase and the end of the run, from the sources left to scrape and the
  results so far. \<open>None\<close>: the pool never finishes and the run never ends.
\<close>

definition scrape_and_finish ::
  "env \<Rightarrow> OSINTQuery \<Rightarrow> string \<Rightarrow> int \<Rightarrow> string list \<Rightarrow> run_state \<Rightarrow> world option" where
  "scrape_and_finish ev q engine timeout todo s =
     (if todo = []
      then (let s1 = persist ev q (put_note NoteAllSatisfied s)
            in Some (put (Done (length (snd s1))) (fst s1)))
      else (case run_pool ev q engine timeout todo s of
              None \<Rightarrow> None
            | Some s1 \<Rightarrow>
                (let s2 = persist ev q s1;
                     w4 = (if snd s2 = []
                           then put (Note (NoteRegistered (sort (map fst (SCRAPERS ev)))))
                                  (put (Note NoteNoResults) (fst s2))
                           else fst s2)
                 in Some (put (Done (length (snd s2))) w4))))"

text \<open>\<open>_background_run\<close>: the world when the run has ended, \<open>None\<close> when it never ends.\<close>

definition background_run :: "env \<Rightarrow> app \<Rightarrow> string list \<Rightarrow> bool \<Rightarrow> world \<Rightarrow> world option" where
  "background_run ev ap sites skip_cache w =
     (let q = var_query ap;
          cache_hits = (if \<not> skip_cache then load_cache (sha256_hexdigest ev) (disk w) q else [])
      in
      if \<not> skip_cache \<and> cache_hits \<noteq> []
      then Some (put (Done (length cache_hits))
             (fold (\<lambda>h. put (Hit h)) cache_hits (put (Note (NoteCacheLoaded (length cache_hits))) w)))
      else
       (let w2 = begin_fresh_run ev ap sites skip_cache w;
            threads = worker_count (threads_var ap);
            timeout = max 3 (timeout_var ap);
            engine = engine_guard (engine_var ap);
            ordered = ordered_sites sites;
            pf = dataset_prefilter ev q ordered w2;
            todo = sites_to_scrape ordered (satisfied_sites pf);
            w3 = announce_prefilter pf
        in scrape_and_finish ev q engine timeout todo (w3, results_from_datasets pf)))"

section \<open>The UI consumer\<close>

text \<open>
  \<open>_process_ui_queue\<close>, as far as the result list and the progress bar go. A fresh
  progress bar has maximum 100 and value 0.
\<close>

record ui_state =
  ui_results :: "OSINTHit list"
  progress_maximum :: nat
  progress_value :: nat
  finished :: bool

definition ui_initial :: ui_state where
  "ui_initial = \<lparr>ui_results = [], progress_maximum = 100, progress_value = 0, finished = False\<rparr>"

fun process_event :: "ui_event \<Rightarrow> ui_state \<Rightarrow> ui_state" where
  "process_event (Hit h) u = u\<lparr>ui_results := ui_results u @ [h]\<rparr>"
| "process_event (Note n) u = u"
| "process_event (SetupProgress n) u = u\<lparr>progress_maximum := n, progress_value := 0\<rparr>"
| "process_event (IncProgress k) u =
     u\<lparr>progress_value := min (progress_maximum u) (progress_value u + k)\<rparr>"
| "process_event (Done n) u = u\<lparr>progress_value := progress_maximum u, finished := True\<rparr>"

definition process_ui_queue :: "ui_event list \<Rightarrow> ui_state \<Rightarrow> ui_state" where
  "process_ui_queue evs u = fold process_event evs u"

section \<open>Concrete runs\<close>

text \<open>The inputs the closed theorems below are evaluated at.\<close>

definition empty_query :: OSINTQuery where
  "empty_query =
     \<lparr>first = [], last = [], username = [], email = [], phone = [],
      address1 = [], city = [], state = [], zip = []\<rparr>"

definition alice_query :: OSINTQuery where
  "alice_query = empty_query\<lparr>username := ''alice''\<rparr>"

definition offline :: network where
  "offline = \<lparr>find_wayback_snapshots = (\<lambda>d n. Inr []), find_crtsh_certificates = (\<lambda>d n. Inr [])\<rparr>"

definition raising_scraper :: scraper where
  "raising_scraper q = \<lparr>elapsed = Some 1, outcome = Raises (OtherError ''boom'')\<rparr>"

definition slow_scraper :: scraper where
  "slow_scraper q = \<lparr>elapsed = Some 90, outcome = Returns []\<rparr>"

definition silent_scraper :: scraper where
  "silent_scraper q = \<lparr>elapsed = Some 1, outcome = Returns []\<rparr>"

text \<open>A scraper whose invocation never ends.\<close>

definition hanging_scraper :: scraper where
  "hanging_scraper q = \<lparr>elapsed = None, outcome = Returns []\<rparr>"

text \<open>The repository's own provider (batch entry point only) with three scrapers.\<close>

definition example_env :: env where
  "example_env =
     \<lparr>sha256_hexdigest = (\<lambda>s. s),
      search_site_for_query = None,
      search_sites_for_query = (\<lambda>ss qd. Inr (datasets_search_sites_for_query offline ss qd)),
      SCRAPERS = [(''FamilyTreeNow'', raising_scraper), (''Radaris'', slow_scraper),
                  (''Username Pack (direct)'', silent_scraper)],
      get_session = None\<rparr>"

definition example_app :: "OSINTQuery \<Rightarrow> app" where
  "example_app q = \<lparr>var_query = q, threads_var = 16, timeout_var = 12, engine_var = ''DuckDuckGo''\<rparr>"

definition fresh_world :: world where
  "fresh_world =
     \<lparr>disk = \<lparr>files = Map.empty, unwritable = {}\<rparr>, ui_queue = [], calls = [], reports = []\<rparr>"

definition has_error_marker :: "OSINTHit \<Rightarrow> bool" where
  "has_error_marker h = (map_of (raw h) ''error'' \<noteq> None)"

text \<open>The error markers of the results a task leaves, when it returns.\<close>

definition task_error_markers :: "run_state option \<Rightarrow> bool list option" where
  "task_error_markers r = map_option (\<lambda>s. map has_error_marker (snd s)) r"

definition is_dataset_call :: "call \<Rightarrow> bool" where
  "is_dataset_call c = (case c of DatasetCall s qd \<Rightarrow> True | ScraperCall s t \<Rightarrow> False)"

text \<open>The hits among a list of events, in order.\<close>

definition queue_hits :: "ui_event list \<Rightarrow> OSINTHit list" where
  "queue_hits evs = concat (map (\<lambda>e. case e of Hit h \<Rightarrow> [h] | _ \<Rightarrow> []) evs)"

text \<open>Observations on the event queue: the events a step adds, and their kinds.\<close>

definition emits :: "world \<Rightarrow> world \<Rightarrow> ui_event list \<Rightarrow> bool" where
  "emits w w' evs = (ui_queue w' = ui_queue w @ evs)"

definition is_setup :: "ui_event \<Rightarrow> bool" where
  "is_setup e = (case e of SetupProgress n \<Rightarrow> True | _ \<Rightarrow> False)"

definition is_inc :: "ui_event \<Rightarrow> bool" where
  "is_inc e = (case e of IncProgress n \<Rightarrow> True | _ \<Rightarrow> False)"

definition is_done :: "ui_event \<Rightarrow> bool" where
  "is_done e = (case e of Done n \<Rightarrow> True | _ \<Rightarrow> False)"

text \<open>
  The candidate hits of source \<open>s\<close> that pass the token filter, as hits: what the
  prefilter accepts for \<open>s\<close>.
\<close>

definition accepted_hits :: "env \<Rightarrow> OSINTQuery \<Rightarrow> string list \<Rightarrow> string \<Rightarrow> OSINTHit list" where
  "accepted_hits ev q toks s =
     (if toks = [] then []
      else (case call_provider ev \<lparr>se_label = s, se_domain = None\<rparr> (site_qdict s q) of
              Inl e \<Rightarrow> []
            | Inr dhs \<Rightarrow> map (ds_hit s) (filter (matched toks) dhs)))"

text \<open>The run is answered from the cache: no bypass was asked and the cache holds hits.\<close>

definition cache_short_circuits :: "env \<Rightarrow> app \<Rightarrow> bool \<Rightarrow> world \<Rightarrow> bool" where
  "cache_short_circuits ev ap skip_cache w =
     (\<not> skip_cache \<and> load_cache (sha256_hexdigest ev) (disk w) (var_query ap) \<noteq> [])"

text \<open>
  The sources handed to the scraper pool: the ordered sources that are not the site
  label of an accepted dataset hit.
\<close>

definition scheduled_sites :: "env \<Rightarrow> OSINTQuery \<Rightarrow> string list \<Rightarrow> string list" where
  "scheduled_sites ev q sites =
     filter (\<lambda>s. s \<notin> site ` set (concat (map (accepted_hits ev q (tokens q)) (ordered_sites sites))))
       (ordered_sites sites)"

text \<open>The same environment with a scraper that never ends registered for one source.\<close>

definition hanging_env :: env where
  "hanging_env = example_env\<lparr>SCRAPERS := [(''Radaris'', hanging_scraper)]\<rparr>"

text \<open>
  A first run for the empty query on a single source with no known domain, from a
  fresh world; its results (one dork link) are written to the cache. \<open>first_run\<close> is
  the world that run ends in.
\<close>

definition first_run :: world where
  "first_run =
     (case background_run example_env (example_app empty_query) [''NeighborReport''] False
             fresh_world of
        Some w \<Rightarrow> w
      | None \<Rightarrow> fresh_world)"

text \<open>
  The scraper task of a source ends: building the session raises, or the scraper's
  invocation ends.
\<close>

definition invocation_ends :: "env \<Rightarrow> OSINTQuery \<Rightarrow> string \<Rightarrow> bool" where
  "invocation_ends ev q st =
     (case get_session ev of
        Some e \<Rightarrow> True
      | None \<Rightarrow> run_scraper_time (SCRAPERS ev) st q \<noteq> None)"

text \<open>The scraper invocations of a pool over the given sources, in dispatch order.\<close>

definition dispatch_calls :: "env \<Rightarrow> int \<Rightarrow> string list \<Rightarrow> call list" where
  "dispatch_calls ev timeout sts =
     (if get_session ev = None
      then map (\<lambda>st. ScraperCall st (site_timeout st timeout)) sts else [])"

text \<open>The events of a run: those on the queue after it that were not there before.\<close>

definition new_events :: "world \<Rightarrow> world \<Rightarrow> ui_event list" where
  "new_events w w' = drop (length (ui_queue w)) (ui_queue w')"

section \<open>The scraper pool: events, results and calls\<close>

lemma fold_emit_hit:
  "fold emit_hit hs s = ((fst s)\<lparr>ui_queue := ui_queue (fst s) @ map Hit hs\<rparr>, snd s @ hs)"
proof (induction hs arbitrary: s)
  case Nil
  then show ?case by simp
next
  case (Cons h hs)
  show ?case by (simp add: Cons.IH) (simp add: emit_hit_def put_def)
qed

lemma SITE_URL_nonempty: "map_of SITE_URL st = Some u \<Longrightarrow> u \<noteq> []"
  by (drule map_of_SomeD) (auto simp: SITE_URL_def)

lemma site_base_url_nonempty: "site_base_url st = Some u \<Longrightarrow> u \<noteq> []"
  by (auto simp: site_base_url_def dest: SITE_URL_nonempty split: option.splits)

lemma truthy_site_base_url: "truthy (site_base_url st) = (site_base_url st \<noteq> None)"
  by (cases "site_base_url st") (auto simp: truthy_def dest: site_base_url_nonempty)

lemma task_hits_timeout:
  "task_hits st q engine t (Inl (TimeoutError m)) =
     (case site_base_url st of
        Some home \<Rightarrow>
          [mk_hit st (st @ '' (timeout'' @ rarr @ ''open site)'')
             (''Timed out after '' @ show_int t @ ''s'') home
             [(''timeout'', PBool True), (''fallback'', PStr ''home'')]]
      | None \<Rightarrow> [])
     @ [mk_hit st (st @ '' (timeout'' @ rarr @ ''dork)'')
          (''Timed out after '' @ show_int t @ ''s'') (dork_url st q engine)
          [(''timeout'', PBool True), (''fallback'', PStr ''dork'')]]"
  by (cases "site_base_url st")
     (auto simp: task_hits_def Let_def truthy_def opt_str_def dest: site_base_url_nonempty)

lemma emits_refl: "emits w w []"
  by (simp add: emits_def)

lemma emits_trans: "emits w w' a \<Longrightarrow> emits w' w'' b \<Longrightarrow> emits w w'' (a @ b)"
  by (simp add: emits_def)

lemma emits_put: "emits w (put e w) [e]"
  by (simp add: emits_def put_def)

lemma queue_hits_append: "queue_hits (a @ b) = queue_hits a @ queue_hits b"
  by (simp add: queue_hits_def)

lemma queue_hits_map_Hit: "queue_hits (map Hit hs) = hs"
  by (induction hs) (simp_all add: queue_hits_def)

lemma queue_hits_simps:
  "queue_hits [] = []"
  "queue_hits (Hit h # evs) = h # queue_hits evs"
  "queue_hits (Note n # evs) = queue_hits evs"
  "queue_hits (SetupProgress k # evs) = queue_hits evs"
  "queue_hits (IncProgress k # evs) = queue_hits evs"
  "queue_hits (Done k # evs) = queue_hits evs"
  by (simp_all add: queue_hits_def)

lemma filter_is_setup_map_Hit: "filter is_setup (map Hit hs) = []"
  by (induction hs) (simp_all add: is_setup_def)

lemma filter_is_inc_map_Hit: "filter is_inc (map Hit hs) = []"
  by (induction hs) (simp_all add: is_inc_def)

lemma filter_is_done_map_Hit: "filter is_done (map Hit hs) = []"
  by (induction hs) (simp_all add: is_done_def)

lemma dispatch_calls_Nil: "dispatch_calls ev timeout [] = []"
  by (simp add: dispatch_calls_def)

lemma dispatch_calls_Cons:
  "dispatch_calls ev timeout (st # sts) = dispatch_calls ev timeout [st] @ dispatch_calls ev timeout sts"
  by (simp add: dispatch_calls_def)

text \<open>One task: what \<open>_run_site_with_timeout\<close> leaves when it returns, and when it does.\<close>

lemma run_site_world:
  assumes "run_site_with_timeout ev st q t w = Some r"
  shows "ui_queue (fst r) = ui_queue w
   \<and> disk (fst r) = disk w
   \<and> reports (fst r) = reports w
   \<and> calls (fst r) = calls w @ (if get_session ev = None then [ScraperCall st t] else [])"
  using assms
  by (auto simp: run_site_with_timeout_def Let_def record_call_def
      split: option.splits sum.splits py_exc.splits if_splits)

lemma run_site_ends:
  assumes "invocation_ends ev q st"
  shows "\<exists>r. run_site_with_timeout ev st q t w = Some r"
  using assms
  by (auto simp: run_site_with_timeout_def invocation_ends_def Let_def
      split: option.splits sum.splits py_exc.splits)

lemma run_site_never:
  assumes "\<not> invocation_ends ev q st"
  shows "run_site_with_timeout ev st q t w = None"
  using assms
  by (auto simp: run_site_with_timeout_def invocation_ends_def Let_def split: option.splits)

lemma run_site_timeout:
  assumes "get_session ev = None"
    and "run_scraper_time (SCRAPERS ev) st q = Some d"
    and "real_of_int t < d"
  shows "run_site_with_timeout ev st q t w =
           Some (record_call (ScraperCall st t) w, Inl (TimeoutError []))"
  using assms by (simp add: run_site_with_timeout_def Let_def)

text \<open>The events the completion loop adds for one task.\<close>

lemma process_result_effect:
  "\<exists>evs. emits (fst s) (fst (process_result st q engine t res s)) evs
     \<and> filter is_setup evs = [] \<and> filter is_done evs = []
     \<and> filter is_inc evs = [IncProgress 1]
     \<and> queue_hits evs = task_hits st q engine t res
     \<and> snd (process_result st q engine t res s) = snd s @ queue_hits evs
     \<and> disk (fst (process_result st q engine t res s)) = disk (fst s)
     \<and> reports (fst (process_result st q engine t res s)) = reports (fst s)
     \<and> calls (fst (process_result st q engine t res s)) = calls (fst s)"
proof -
  let ?hs = "task_hits st q engine t res"
  let ?s' = "process_result st q engine t res s"
  consider (some) hits where "res = Inr hits" "hits \<noteq> []"
    | (none) "res = Inr []"
    | (timeout) m where "res = Inl (TimeoutError m)"
    | (ni) m where "res = Inl (NotImplementedError m)"
    | (other) m where "res = Inl (OtherError m)"
  proof (cases res)
    case (Inl e)
    then show thesis using that by (cases e) auto
  next
    case (Inr hits)
    then show thesis using that by (cases "hits = []") auto
  qed
  then obtain evs where evs: "emits (fst s) (fst ?s') evs"
      "evs = [Note (NoteSiteHits st (length ?hs))] @ map Hit ?hs @ [IncProgress 1]
       \<or> evs = map Hit ?hs @ [Note (NoteProvidedLinks st), IncProgress 1]
       \<or> evs = map Hit ?hs @ [Note (NoteTimeoutLinks st), IncProgress 1]
       \<or> evs = map Hit ?hs @ [Note (NoteErrorLinks st), IncProgress 1]"
      "snd ?s' = snd s @ ?hs" "disk (fst ?s') = disk (fst s)"
      "reports (fst ?s') = reports (fst s)" "calls (fst ?s') = calls (fst s)"
  proof cases
    case some
    have h: "?hs = hits" using some by (simp add: task_hits_def Let_def)
    show thesis
      by (rule that[of "[Note (NoteSiteHits st (length ?hs))] @ map Hit ?hs @ [IncProgress 1]"])
         (simp_all add: some h process_result_def Let_def fold_emit_hit put_note_def emits_def
            put_def task_hits_def)
  next
    case none
    show thesis
      by (rule that[of "map Hit ?hs @ [Note (NoteProvidedLinks st), IncProgress 1]"])
         (simp_all add: none process_result_def Let_def fold_emit_hit put_note_def emits_def put_def)
  next
    case timeout
    show thesis
      by (rule that[of "map Hit ?hs @ [Note (NoteTimeoutLinks st), IncProgress 1]"])
         (simp_all add: timeout process_result_def Let_def fold_emit_hit put_note_def emits_def
            put_def)
  next
    case ni
    show thesis
      by (rule that[of "map Hit ?hs @ [Note (NoteErrorLinks st), IncProgress 1]"])
         (simp_all add: ni process_result_def Let_def fold_emit_hit put_note_def emits_def put_def)
  next
    case other
    show thesis
      by (rule that[of "map Hit ?hs @ [Note (NoteErrorLinks st), IncProgress 1]"])
         (simp_all add: other process_result_def Let_def fold_emit_hit put_note_def emits_def
            put_def)
  qed
  have k: "filter is_setup evs = [] \<and> filter is_done evs = []
         \<and> filter is_inc evs = [IncProgress 1] \<and> queue_hits evs = ?hs"
    using evs(2)
    by (auto simp: is_setup_def is_inc_def is_done_def queue_hits_append queue_hits_map_Hit
          queue_hits_simps filter_is_setup_map_Hit filter_is_inc_map_Hit filter_is_done_map_Hit)
  show ?thesis
    using evs(1,3,4,5,6) k by (intro exI[of _ evs]) simp
qed

lemma run_task_Some:
  assumes "run_task ev q engine timeout st s = Some s'"
  shows "\<exists>evs r. run_site_with_timeout ev st q (site_timeout st timeout) (fst s) = Some r
     \<and> emits (fst s) (fst s') evs
     \<and> filter is_setup evs = [] \<and> filter is_done evs = []
     \<and> filter is_inc evs = [IncProgress 1]
     \<and> queue_hits evs = task_hits st q engine (site_timeout st timeout) (snd r)
     \<and> snd s' = snd s @ queue_hits evs
     \<and> disk (fst s') = disk (fst s)
     \<and> reports (fst s') = reports (fst s)
     \<and> calls (fst s') = calls (fst s) @ dispatch_calls ev timeout [st]"
proof -
  let ?t = "site_timeout st timeout"
  from assms obtain r where r: "run_site_with_timeout ev st q ?t (fst s) = Some r"
      and s': "s' = process_result st q engine ?t (snd r) (fst r, snd s)"
    by (auto simp: run_task_def Let_def split: option.splits)
  note w = run_site_world[OF r]
  obtain evs where evs: "emits (fst (fst r, snd s)) (fst s') evs"
      "filter is_setup evs = []" "filter is_done evs = []"
      "filter is_inc evs = [IncProgress 1]"
      "queue_hits evs = task_hits st q engine ?t (snd r)"
      "snd s' = snd (fst r, snd s) @ queue_hits evs"
      "disk (fst s') = disk (fst (fst r, snd s))"
      "reports (fst s') = reports (fst (fst r, snd s))"
      "calls (fst s') = calls (fst (fst r, snd s))"
    using process_result_effect[of "(fst r, snd s)" st q engine ?t "snd r"] unfolding s' by blast
  have e: "emits (fst s) (fst s') evs" using evs(1) w by (simp add: emits_def)
  show ?thesis
    apply (rule exI[of _ evs], rule exI[of _ r], intro conjI)
    subgoal using r .
    subgoal using e .
    subgoal using evs(2) .
    subgoal using evs(3) .
    subgoal using evs(4) .
    subgoal using evs(5) .
    subgoal using evs(6) by simp
    subgoal using evs(7) w by simp
    subgoal using evs(8) w by simp
    subgoal using evs(9) w by (simp add: dispatch_calls_def)
    done
qed

lemma run_task_ends:
  assumes "invocation_ends ev q st"
  shows "\<exists>s'. run_task ev q engine timeout st s = Some s'"
  using run_site_ends[OF assms, of "site_timeout st timeout" "fst s"]
  by (auto simp: run_task_def Let_def)

lemma run_task_never:
  assumes "\<not> invocation_ends ev q st"
  shows "run_task ev q engine timeout st s = None"
  using run_site_never[OF assms, of "site_timeout st timeout" "fst s"]
  by (simp add: run_task_def Let_def)

text \<open>The pool: what it leaves when it returns, and when it does.\<close>

lemma run_pool_Some:
  assumes "run_pool ev q engine timeout todo s = Some s'"
  shows "\<exists>evs. emits (fst s) (fst s') evs
     \<and> filter is_setup evs = [] \<and> filter is_done evs = []
     \<and> length (filter is_inc evs) = length todo
     \<and> snd s' = snd s @ queue_hits evs
     \<and> disk (fst s') = disk (fst s)
     \<and> reports (fst s') = reports (fst s)
     \<and> calls (fst s') = calls (fst s) @ dispatch_calls ev timeout todo"
  using assms
proof (induction todo arbitrary: s)
  case Nil
  then show ?case
    by (intro exI[of _ "[]"]) (simp add: emits_refl queue_hits_simps dispatch_calls_Nil)
next
  case (Cons st sts)
  from Cons.prems obtain s1 where s1: "run_task ev q engine timeout st s = Some s1"
      and rest: "run_pool ev q engine timeout sts s1 = Some s'"
    by (auto split: option.splits)
  obtain a where a: "emits (fst s) (fst s1) a" "filter is_setup a = []" "filter is_done a = []"
      "filter is_inc a = [IncProgress 1]" "snd s1 = snd s @ queue_hits a"
      "disk (fst s1) = disk (fst s)" "reports (fst s1) = reports (fst s)"
      "calls (fst s1) = calls (fst s) @ dispatch_calls ev timeout [st]"
    using run_task_Some[OF s1] by blast
  obtain b where b: "emits (fst s1) (fst s') b" "filter is_setup b = []" "filter is_done b = []"
      "length (filter is_inc b) = length sts" "snd s' = snd s1 @ queue_hits b"
      "disk (fst s') = disk (fst s1)" "reports (fst s') = reports (fst s1)"
      "calls (fst s') = calls (fst s1) @ dispatch_calls ev timeout sts"
    using Cons.IH[OF rest] by blast
  show ?case
    apply (intro exI[of _ "a @ b"] conjI)
    subgoal using emits_trans[OF a(1) b(1)] .
    subgoal using a(2) b(2) by simp
    subgoal using a(3) b(3) by simp
    subgoal using a(4) b(4) by simp
    subgoal using a(5) b(5) by (simp add: queue_hits_append)
    subgoal using a(6) b(6) by simp
    subgoal using a(7) b(7) by simp
    subgoal using a(8) b(8) dispatch_calls_Cons[of ev timeout st sts] by simp
    done
qed

lemma run_pool_ends:
  assumes "\<forall>st \<in> set todo. invocation_ends ev q st"
  shows "\<exists>s'. run_pool ev q engine timeout todo s = Some s'"
  using assms
proof (induction todo arbitrary: s)
  case Nil
  show ?case by simp
next
  case (Cons st sts)
  then obtain s1 where s1: "run_task ev q engine timeout st s = Some s1"
    using run_task_ends[of ev q st engine timeout s] by auto
  obtain s' where "run_pool ev q engine timeout sts s1 = Some s'"
    using Cons.IH[of s1] Cons.prems by auto
  then show ?case using s1 by simp
qed

section \<open>The dataset prefilter: events, results and calls\<close>

lemma contains_iff: "contains tok str \<longleftrightarrow> (\<exists>pre post. str = pre @ tok @ post)"
proof (induction str)
  case Nil
  show ?case by auto
next
  case (Cons c cs)
  show ?case
  proof
    assume "contains tok (c # cs)"
    then consider "take (length tok) (c # cs) = tok" | "contains tok cs" by auto
    then show "\<exists>pre post. c # cs = pre @ tok @ post"
    proof cases
      case 1
      then have "c # cs = [] @ tok @ drop (length tok) (c # cs)"
        by (metis append_Nil append_take_drop_id)
      then show ?thesis by blast
    next
      case 2
      then obtain pre post where "cs = pre @ tok @ post" using Cons.IH by blast
      then have "c # cs = (c # pre) @ tok @ post" by simp
      then show ?thesis by blast
    qed
  next
    assume "\<exists>pre post. c # cs = pre @ tok @ post"
    then obtain pre post where e: "c # cs = pre @ tok @ post" by blast
    show "contains tok (c # cs)"
    proof (cases pre)
      case Nil
      then have "take (length tok) (c # cs) = tok" using e by simp
      then show ?thesis by simp
    next
      case (Cons p pre')
      then have "cs = pre' @ tok @ post" using e by simp
      then have "contains tok cs" using Cons.IH by blast
      then show ?thesis by simp
    qed
  qed
qed

text \<open>The hits accepted from what a provider returned for source \<open>s\<close>.\<close>

lemma process_ds_hit_effect:
  "\<exists>evs. emits (pf_world st) (pf_world (process_ds_hit toks s dh st)) evs
     \<and> filter is_setup evs = [] \<and> filter is_done evs = [] \<and> filter is_inc evs = []
     \<and> queue_hits evs = (if matched toks dh then [ds_hit s dh] else [])
     \<and> results_from_datasets (process_ds_hit toks s dh st) = results_from_datasets st @ queue_hits evs
     \<and> set (satisfied_sites (process_ds_hit toks s dh st)) = set (satisfied_sites st) \<union> site ` set (queue_hits evs)
     \<and> disk (pf_world (process_ds_hit toks s dh st)) = disk (pf_world st)
     \<and> calls (pf_world (process_ds_hit toks s dh st)) = calls (pf_world st)
     \<and> reports (pf_world (process_ds_hit toks s dh st)) = reports (pf_world st)"
proof (cases "matched toks dh")
  case True
  then show ?thesis
    by (intro exI[of _ "[Hit (ds_hit s dh)]"])
       (auto simp: process_ds_hit_def emits_def put_def is_setup_def is_done_def is_inc_def
          queue_hits_def set_add_def ds_hit_def mk_hit_def)
next
  case False
  then show ?thesis
    by (intro exI[of _ "[Note (NoteDatasetsSkip s (take 200 (opt_str (rh_url dh))))]"])
       (auto simp: process_ds_hit_def emits_def put_def is_setup_def is_done_def is_inc_def
          queue_hits_def)
qed


lemma process_ds_hits_effect:
  "\<exists>evs. emits (pf_world st) (pf_world (fold (process_ds_hit toks s) dhs st)) evs
     \<and> filter is_setup evs = [] \<and> filter is_done evs = [] \<and> filter is_inc evs = []
     \<and> queue_hits evs = map (ds_hit s) (filter (matched toks) dhs)
     \<and> results_from_datasets (fold (process_ds_hit toks s) dhs st) = results_from_datasets st @ queue_hits evs
     \<and> set (satisfied_sites (fold (process_ds_hit toks s) dhs st)) = set (satisfied_sites st) \<union> site ` set (queue_hits evs)
     \<and> disk (pf_world (fold (process_ds_hit toks s) dhs st)) = disk (pf_world st)
     \<and> calls (pf_world (fold (process_ds_hit toks s) dhs st)) = calls (pf_world st)
     \<and> reports (pf_world (fold (process_ds_hit toks s) dhs st)) = reports (pf_world st)"
proof (induction dhs arbitrary: st)
  case Nil
  show ?case by (intro exI[of _ "[]"]) (simp add: emits_def queue_hits_def)
next
  case (Cons dh dhs)
  let ?s1 = "process_ds_hit toks s dh st"
  obtain a where a: "emits (pf_world st) (pf_world ?s1) a"
      "filter is_setup a = []" "filter is_done a = []" "filter is_inc a = []"
      "queue_hits a = (if matched toks dh then [ds_hit s dh] else [])"
      "results_from_datasets ?s1 = results_from_datasets st @ queue_hits a"
      "set (satisfied_sites ?s1) = set (satisfied_sites st) \<union> site ` set (queue_hits a)"
      "disk (pf_world ?s1) = disk (pf_world st)"
      "calls (pf_world ?s1) = calls (pf_world st)"
      "reports (pf_world ?s1) = reports (pf_world st)"
    using process_ds_hit_effect[of st toks s dh] by blast
  let ?s2 = "fold (process_ds_hit toks s) dhs ?s1"
  obtain b where b: "emits (pf_world ?s1) (pf_world ?s2) b"
      "filter is_setup b = []" "filter is_done b = []" "filter is_inc b = []"
      "queue_hits b = map (ds_hit s) (filter (matched toks) dhs)"
      "results_from_datasets ?s2 = results_from_datasets ?s1 @ queue_hits b"
      "set (satisfied_sites ?s2) = set (satisfied_sites ?s1) \<union> site ` set (queue_hits b)"
      "disk (pf_world ?s2) = disk (pf_world ?s1)"
      "calls (pf_world ?s2) = calls (pf_world ?s1)"
      "reports (pf_world ?s2) = reports (pf_world ?s1)"
    using Cons.IH[of ?s1] by blast
  have e: "emits (pf_world st) (pf_world ?s2) (a @ b)"
    using a(1) b(1) by (simp add: emits_def)
  have qh: "queue_hits (a @ b) = queue_hits a @ queue_hits b"
    by (simp add: queue_hits_def)
  show ?case
    apply (intro exI[of _ "a @ b"])
    apply (simp only: fold_simps comp_def)
    using e a b qh by (auto simp: image_Un)
qed

lemma prefilter_site_effect:
  "\<exists>evs. emits (pf_world st) (pf_world (prefilter_site ev q toks s st)) evs
     \<and> filter is_setup evs = [] \<and> filter is_done evs = [] \<and> filter is_inc evs = []
     \<and> queue_hits evs = accepted_hits ev q toks s
     \<and> results_from_datasets (prefilter_site ev q toks s st) = results_from_datasets st @ queue_hits evs
     \<and> set (satisfied_sites (prefilter_site ev q toks s st)) = set (satisfied_sites st) \<union> site ` set (queue_hits evs)
     \<and> disk (pf_world (prefilter_site ev q toks s st)) = disk (pf_world st)
     \<and> calls (pf_world (prefilter_site ev q toks s st)) =
          calls (pf_world st) @ (if toks = [] then [] else [DatasetCall s (site_qdict s q)])
     \<and> reports (pf_world (prefilter_site ev q toks s st)) = reports (pf_world st)"
proof (cases "toks = []")
  case True
  then show ?thesis
    by (intro exI[of _ "[Note (NoteSkippingDatasets s)]"])
       (simp add: prefilter_site_def Let_def emits_def put_def is_setup_def is_done_def
          is_inc_def queue_hits_def accepted_hits_def)
next
  case False
  let ?qd = "site_qdict s q"
  let ?w1 = "record_call (DatasetCall s ?qd) (pf_world st)"
  show ?thesis
  proof (cases "call_provider ev \<lparr>se_label = s, se_domain = None\<rparr> ?qd")
    case (Inl e)
    with False show ?thesis
      by (intro exI[of _ "[Note (NoteDatasetsFailed s (take 200 (exc_str e)))]"])
         (simp add: prefilter_site_def Let_def emits_def put_def is_setup_def is_done_def
            is_inc_def queue_hits_def accepted_hits_def record_call_def)
  next
    case (Inr dhs)
    let ?st1 = "st\<lparr>pf_world := ?w1\<rparr>"
    have r: "prefilter_site ev q toks s st = fold (process_ds_hit toks s) dhs ?st1"
      using False Inr by (simp add: prefilter_site_def Let_def)
    obtain evs where evs:
      "emits (pf_world ?st1) (pf_world (fold (process_ds_hit toks s) dhs ?st1)) evs"
      "filter is_setup evs = []" "filter is_done evs = []" "filter is_inc evs = []"
      "queue_hits evs = map (ds_hit s) (filter (matched toks) dhs)"
      "results_from_datasets (fold (process_ds_hit toks s) dhs ?st1) = results_from_datasets ?st1 @ queue_hits evs"
      "set (satisfied_sites (fold (process_ds_hit toks s) dhs ?st1)) = set (satisfied_sites ?st1) \<union> site ` set (queue_hits evs)"
      "disk (pf_world (fold (process_ds_hit toks s) dhs ?st1)) = disk (pf_world ?st1)"
      "calls (pf_world (fold (process_ds_hit toks s) dhs ?st1)) = calls (pf_world ?st1)"
      "reports (pf_world (fold (process_ds_hit toks s) dhs ?st1)) = reports (pf_world ?st1)"
      using process_ds_hits_effect[of ?st1 toks s dhs] by blast
    have acc: "accepted_hits ev q toks s = map (ds_hit s) (filter (matched toks) dhs)"
      using False Inr by (simp add: accepted_hits_def)
    show ?thesis
      apply (intro exI[of _ evs])
      apply (simp only: r)
      using evs acc False by (simp add: emits_def record_call_def)
  qed
qed

lemma prefilter_fold_effect:
  "\<exists>evs. emits (pf_world st) (pf_world (fold (prefilter_site ev q toks) ordered st)) evs
     \<and> filter is_setup evs = [] \<and> filter is_done evs = [] \<and> filter is_inc evs = []
     \<and> queue_hits evs = concat (map (accepted_hits ev q toks) ordered)
     \<and> results_from_datasets (fold (prefilter_site ev q toks) ordered st) = results_from_datasets st @ queue_hits evs
     \<and> set (satisfied_sites (fold (prefilter_site ev q toks) ordered st)) = set (satisfied_sites st) \<union> site ` set (queue_hits evs)
     \<and> disk (pf_world (fold (prefilter_site ev q toks) ordered st)) = disk (pf_world st)
     \<and> calls (pf_world (fold (prefilter_site ev q toks) ordered st)) =
          calls (pf_world st) @ (if toks = [] then [] else map (\<lambda>s. DatasetCall s (site_qdict s q)) ordered)
     \<and> reports (pf_world (fold (prefilter_site ev q toks) ordered st)) = reports (pf_world st)"
proof (induction ordered arbitrary: st)
  case Nil
  show ?case by (intro exI[of _ "[]"]) (simp add: emits_def queue_hits_def)
next
  case (Cons s ss)
  let ?s1 = "prefilter_site ev q toks s st"
  let ?s2 = "fold (prefilter_site ev q toks) ss ?s1"
  obtain a where a: "emits (pf_world st) (pf_world ?s1) a"
      "filter is_setup a = []" "filter is_done a = []" "filter is_inc a = []"
      "queue_hits a = accepted_hits ev q toks s"
      "results_from_datasets ?s1 = results_from_datasets st @ queue_hits a"
      "set (satisfied_sites ?s1) = set (satisfied_sites st) \<union> site ` set (queue_hits a)"
      "disk (pf_world ?s1) = disk (pf_world st)"
      "calls (pf_world ?s1) = calls (pf_world st) @ (if toks = [] then [] else [DatasetCall s (site_qdict s q)])"
      "reports (pf_world ?s1) = reports (pf_world st)"
    using prefilter_site_effect[of st ev q toks s] by blast
  obtain b where b: "emits (pf_world ?s1) (pf_world ?s2) b"
      "filter is_setup b = []" "filter is_done b = []" "filter is_inc b = []"
      "queue_hits b = concat (map (accepted_hits ev q toks) ss)"
      "results_from_datasets ?s2 = results_from_datasets ?s1 @ queue_hits b"
      "set (satisfied_sites ?s2) = set (satisfied_sites ?s1) \<union> site ` set (queue_hits b)"
      "disk (pf_world ?s2) = disk (pf_world ?s1)"
      "calls (pf_world ?s2) = calls (pf_world ?s1) @ (if toks = [] then [] else map (\<lambda>s. DatasetCall s (site_qdict s q)) ss)"
      "reports (pf_world ?s2) = reports (pf_world ?s1)"
    using Cons.IH[of ?s1] by blast
  have e: "emits (pf_world st) (pf_world ?s2) (a @ b)"
    using a(1) b(1) by (simp add: emits_def)
  have qh: "queue_hits (a @ b) = queue_hits a @ queue_hits b"
    by (simp add: queue_hits_def)
  show ?case
    apply (intro exI[of _ "a @ b"])
    apply (simp only: fold_simps comp_def)
    using e a b qh by (auto simp: image_Un)
qed

lemma dataset_prefilter_effect:
  "\<exists>evs. emits w (pf_world (dataset_prefilter ev q ordered w)) evs
     \<and> filter is_setup evs = [] \<and> filter is_done evs = [] \<and> filter is_inc evs = []
     \<and> queue_hits evs = concat (map (accepted_hits ev q (tokens q)) ordered)
     \<and> results_from_datasets (dataset_prefilter ev q ordered w) = queue_hits evs
     \<and> set (satisfied_sites (dataset_prefilter ev q ordered w)) = site ` set (queue_hits evs)
     \<and> disk (pf_world (dataset_prefilter ev q ordered w)) = disk w
     \<and> calls (pf_world (dataset_prefilter ev q ordered w)) =
          calls w @ (if tokens q = [] then [] else map (\<lambda>s. DatasetCall s (site_qdict s q)) ordered)
     \<and> reports (pf_world (dataset_prefilter ev q ordered w)) = reports w"
  using prefilter_fold_effect
          [of "\<lparr>pf_world = w, results_from_datasets = [], satisfied_sites = []\<rparr>" ev q "tokens q" ordered]
  unfolding dataset_prefilter_def by simp

section \<open>The run: events and calls\<close>

lemma persist_effect:
  "\<exists>evs. emits (fst s) (fst (persist ev q s)) evs
     \<and> filter is_setup evs = [] \<and> filter is_done evs = [] \<and> filter is_inc evs = []
     \<and> queue_hits evs = []
     \<and> snd (persist ev q s) = snd s
     \<and> calls (fst (persist ev q s)) = calls (fst s)"
proof (cases "snd s = []")
  case True
  then show ?thesis
    by (intro exI[of _ "[Note NoteSavedReports]"])
       (simp add: persist_def Let_def emits_def put_def save_reports_def is_setup_def
          is_done_def is_inc_def queue_hits_def)
next
  case False
  then show ?thesis
    by (intro exI[of _ "[Note (NoteSavedCache (length (snd s))), Note NoteSavedReports]"])
       (simp add: persist_def Let_def emits_def put_def save_reports_def is_setup_def
          is_done_def is_inc_def queue_hits_def)
qed

lemma sites_to_scrape_scheduled:
  assumes "set satisfied = site ` set (concat (map (accepted_hits ev q (tokens q)) (ordered_sites sites)))"
  shows "sites_to_scrape (ordered_sites sites) satisfied = scheduled_sites ev q sites"
proof (cases "satisfied = []")
  case True
  then have "site ` set (concat (map (accepted_hits ev q (tokens q)) (ordered_sites sites))) = {}"
    using assms by simp
  then show ?thesis using True by (simp add: sites_to_scrape_def scheduled_sites_def)
next
  case False
  then show ?thesis using assms by (simp add: sites_to_scrape_def scheduled_sites_def)
qed

lemma background_run_cached:
  assumes "cache_short_circuits ev ap skip_cache w"
  shows "background_run ev ap sites skip_cache w =
     Some (w\<lparr>ui_queue := ui_queue w
          @ [Note (NoteCacheLoaded (length (load_cache (sha256_hexdigest ev) (disk w) (var_query ap))))]
          @ map Hit (load_cache (sha256_hexdigest ev) (disk w) (var_query ap))
          @ [Done (length (load_cache (sha256_hexdigest ev) (disk w) (var_query ap)))]\<rparr>)"
proof -
  have f: "fold (\<lambda>h. put (Hit h)) hs w0 = w0\<lparr>ui_queue := ui_queue w0 @ map Hit hs\<rparr>" for hs w0
    by (induction hs arbitrary: w0) (simp_all add: put_def)
  show ?thesis
    using assms by (simp add: background_run_def cache_short_circuits_def Let_def f put_def)
qed

lemma begin_fresh_run_effect:
  "\<exists>pre. ui_queue (begin_fresh_run ev ap sites skip_cache w) =
           ui_queue w @ pre @ [SetupProgress (length sites), Note NoteRunningDatasets]
     \<and> filter is_setup pre = [] \<and> filter is_inc pre = [] \<and> filter is_done pre = []
     \<and> queue_hits pre = []
     \<and> calls (begin_fresh_run ev ap sites skip_cache w) = calls w"
proof (cases "skip_cache \<and> snd (clear_cache_for_query (sha256_hexdigest ev) (disk w) (var_query ap))")
  case True
  then show ?thesis
    by (intro exI[of _ "[Note NoteCacheCleared]"])
       (simp add: begin_fresh_run_def Let_def put_def is_setup_def is_inc_def is_done_def
          queue_hits_def)
next
  case False
  then show ?thesis
    by (intro exI[of _ "[]"])
       (auto simp: begin_fresh_run_def Let_def put_def queue_hits_def)
qed

lemma announce_prefilter_effect:
  "\<exists>n. ui_queue (announce_prefilter pf) = ui_queue (pf_world pf) @ [Note n]
     \<and> calls (announce_prefilter pf) = calls (pf_world pf)"
  by (cases "satisfied_sites pf = []") (simp_all add: announce_prefilter_def put_def)

lemma scrape_and_finish_Some:
  assumes "scrape_and_finish ev q engine timeout todo s = Some w'"
  shows "\<exists>evs. ui_queue w' =
           ui_queue (fst s) @ evs @ [Done (length (snd s) + length (queue_hits evs))]
     \<and> filter is_setup evs = [] \<and> filter is_done evs = []
     \<and> length (filter is_inc evs) = length todo
     \<and> calls w' = calls (fst s) @ dispatch_calls ev timeout todo"
proof (cases "todo = []")
  case True
  let ?s0 = "put_note NoteAllSatisfied s"
  obtain p where p: "emits (fst ?s0) (fst (persist ev q ?s0)) p"
      "filter is_setup p = []" "filter is_done p = []" "filter is_inc p = []"
      "queue_hits p = []" "snd (persist ev q ?s0) = snd ?s0"
      "calls (fst (persist ev q ?s0)) = calls (fst ?s0)"
    using persist_effect[of ?s0 ev q] by blast
  have s0: "ui_queue (fst ?s0) = ui_queue (fst s) @ [Note NoteAllSatisfied]"
      "snd ?s0 = snd s" "calls (fst ?s0) = calls (fst s)"
    by (simp_all add: put_note_def put_def)
  have w': "w' = put (Done (length (snd (persist ev q ?s0)))) (fst (persist ev q ?s0))"
    using assms True by (simp add: scrape_and_finish_def Let_def)
  let ?evs = "[Note NoteAllSatisfied] @ p"
  have qh: "queue_hits ?evs = []" using p(5) by (simp add: queue_hits_def)
  have uq: "ui_queue w' =
      ui_queue (fst s) @ ?evs @ [Done (length (snd s) + length (queue_hits ?evs))]"
    using p(1,6) s0 qh by (simp add: w' put_def emits_def)
  have cl: "calls w' = calls (fst s)"
    using p(7) s0(3) by (simp add: w' put_def)
  show ?thesis
    apply (intro exI[of _ ?evs] conjI)
    subgoal using uq by blast
    subgoal using p(2) by (simp add: is_setup_def)
    subgoal using p(3) by (simp add: is_done_def)
    subgoal using p(4) True by (simp add: is_inc_def)
    subgoal using cl True by (simp add: dispatch_calls_Nil)
    done
next
  case False
  from assms False obtain s1 where s1: "run_pool ev q engine timeout todo s = Some s1"
    by (auto simp: scrape_and_finish_def split: option.splits)
  let ?s2 = "persist ev q s1"
  obtain b where b: "emits (fst s) (fst s1) b"
      "filter is_setup b = []" "filter is_done b = []"
      "length (filter is_inc b) = length todo"
      "snd s1 = snd s @ queue_hits b"
      "calls (fst s1) = calls (fst s) @ dispatch_calls ev timeout todo"
    using run_pool_Some[OF s1] by blast
  obtain p where p: "emits (fst s1) (fst ?s2) p"
      "filter is_setup p = []" "filter is_done p = []" "filter is_inc p = []"
      "queue_hits p = []" "snd ?s2 = snd s1"
      "calls (fst ?s2) = calls (fst s1)"
    using persist_effect[of s1 ev q] by blast
  define tail where "tail = (if snd ?s2 = []
      then [Note NoteNoResults, Note (NoteRegistered (sort (map fst (SCRAPERS ev))))] else [])"
  have tl: "filter is_setup tail = []" "filter is_done tail = []" "filter is_inc tail = []"
      "queue_hits tail = []"
    by (auto simp: tail_def is_setup_def is_done_def is_inc_def queue_hits_def)
  let ?evs = "b @ p @ tail"
  have qh: "queue_hits ?evs = queue_hits b"
    using p(5) tl(4) by (simp add: queue_hits_def)
  define w4 where "w4 = (if snd ?s2 = []
                      then put (Note (NoteRegistered (sort (map fst (SCRAPERS ev)))))
                             (put (Note NoteNoResults) (fst ?s2))
                      else fst ?s2)"
  have w4: "ui_queue w4 = ui_queue (fst ?s2) @ tail" "calls w4 = calls (fst ?s2)"
    by (simp_all add: w4_def tail_def put_def)
  have w': "w' = put (Done (length (snd ?s2))) w4"
    using assms False s1 by (simp add: scrape_and_finish_def Let_def w4_def)
  have len: "length (snd ?s2) = length (snd s) + length (queue_hits ?evs)"
    by (simp only: qh p(6) b(5)) simp
  have "ui_queue (put (Done (length (snd ?s2))) w4) = ui_queue w4 @ [Done (length (snd ?s2))]"
    by (simp add: put_def)
  also have "\<dots> = (ui_queue (fst s) @ b @ p) @ tail @ [Done (length (snd ?s2))]"
    using b(1) p(1) by (simp add: w4(1) emits_def)
  finally have uq: "ui_queue w' =
      ui_queue (fst s) @ ?evs @ [Done (length (snd s) + length (queue_hits ?evs))]"
    by (simp only: w' len) simp
  have cl: "calls w' = calls (fst ?s2)"
    by (simp only: w') (simp add: put_def w4(2))
  show ?thesis
    apply (intro exI[of _ ?evs] conjI)
    subgoal using uq by blast
    subgoal using b(2) p(2) tl(1) by simp
    subgoal using b(3) p(3) tl(2) by simp
    subgoal using b(4) p(4) tl(3) by simp
    subgoal using cl p(7) b(6) by simp
    done
qed

lemma scrape_and_finish_ends:
  assumes "\<forall>st \<in> set todo. invocation_ends ev q st"
  shows "\<exists>w'. scrape_and_finish ev q engine timeout todo s = Some w'"
proof (cases "todo = []")
  case True
  then show ?thesis by (simp add: scrape_and_finish_def Let_def)
next
  case False
  obtain s1 where "run_pool ev q engine timeout todo s = Some s1"
    using run_pool_ends[OF assms, of engine timeout s] by blast
  then show ?thesis using False by (simp add: scrape_and_finish_def Let_def)
qed

text \<open>
  A run that is not answered from the cache is the scrape phase over the scheduled
  sources, started from the world and results the prefilter leaves.
\<close>

lemma background_run_fresh_unfold:
  assumes "\<not> cache_short_circuits ev ap skip_cache w"
  shows "\<exists>s3 pre a n.
      background_run ev ap sites skip_cache w =
       scrape_and_finish ev (var_query ap) (engine_guard (engine_var ap)) (max 3 (timeout_var ap))
         (scheduled_sites ev (var_query ap) sites) s3
    \<and> ui_queue (fst s3) =
       ui_queue w @ pre @ [SetupProgress (length sites), Note NoteRunningDatasets] @ a @ [Note n]
    \<and> filter is_inc pre = []
    \<and> filter is_setup a = [] \<and> filter is_done a = [] \<and> filter is_inc a = []
    \<and> snd s3 = queue_hits a
    \<and> calls (fst s3) = calls w
       @ (if tokens (var_query ap) = [] then []
          else map (\<lambda>s. DatasetCall s (site_qdict s (var_query ap))) (ordered_sites sites))"
proof -
  define q where "q = var_query ap"
  define ordered where "ordered = ordered_sites sites"
  define w2 where "w2 = begin_fresh_run ev ap sites skip_cache w"
  define pf where "pf = dataset_prefilter ev q ordered w2"
  define todo where "todo = sites_to_scrape ordered (satisfied_sites pf)"
  define timeout where "timeout = max 3 (timeout_var ap)"
  define engine where "engine = engine_guard (engine_var ap)"
  define s3 where "s3 = (announce_prefilter pf, results_from_datasets pf)"
  have run: "background_run ev ap sites skip_cache w = scrape_and_finish ev q engine timeout todo s3"
    using assms
    by (cases skip_cache)
       (simp_all add: background_run_def cache_short_circuits_def Let_def q_def ordered_def
          w2_def pf_def todo_def timeout_def engine_def s3_def)
  obtain pre where pre:
      "ui_queue w2 = ui_queue w @ pre @ [SetupProgress (length sites), Note NoteRunningDatasets]"
      "calls w2 = calls w" "filter is_inc pre = []"
    using begin_fresh_run_effect[of ev ap sites skip_cache w] unfolding w2_def by blast
  obtain a where a: "emits w2 (pf_world pf) a"
      "filter is_setup a = []" "filter is_done a = []" "filter is_inc a = []"
      "queue_hits a = concat (map (accepted_hits ev q (tokens q)) ordered)"
      "results_from_datasets pf = queue_hits a"
      "set (satisfied_sites pf) = site ` set (queue_hits a)"
      "calls (pf_world pf) = calls w2 @ (if tokens q = [] then []
          else map (\<lambda>s. DatasetCall s (site_qdict s q)) ordered)"
    using dataset_prefilter_effect[of w2 ev q ordered] unfolding pf_def by blast
  have todo: "todo = scheduled_sites ev q sites"
    unfolding todo_def ordered_def
    by (rule sites_to_scrape_scheduled) (use a(5,7) in \<open>simp add: ordered_def\<close>)
  obtain n where n: "ui_queue (fst s3) = ui_queue (pf_world pf) @ [Note n]"
      "calls (fst s3) = calls (pf_world pf)"
    using announce_prefilter_effect[of pf] unfolding s3_def by auto
  have r1: "background_run ev ap sites skip_cache w =
       scrape_and_finish ev (var_query ap) (engine_guard (engine_var ap)) (max 3 (timeout_var ap))
         (scheduled_sites ev (var_query ap) sites) s3"
    using run todo by (simp add: q_def engine_def timeout_def)
  have r2: "ui_queue (fst s3) =
       ui_queue w @ pre @ [SetupProgress (length sites), Note NoteRunningDatasets] @ a @ [Note n]"
    using n(1) a(1) pre(1) by (simp add: emits_def)
  have r3: "snd s3 = queue_hits a" using a(6) by (simp add: s3_def)
  have r4: "calls (fst s3) = calls w
       @ (if tokens (var_query ap) = [] then []
          else map (\<lambda>s. DatasetCall s (site_qdict s (var_query ap))) (ordered_sites sites))"
    using n(2) a(8) pre(2) by (simp add: q_def ordered_def)
  show ?thesis
    apply (rule exI[of _ s3], rule exI[of _ pre], rule exI[of _ a], rule exI[of _ n])
    using r1 r2 pre(3) a(2) a(3) a(4) r3 r4 by (intro conjI)
qed

lemma background_run_fresh:
  assumes "\<not> cache_short_circuits ev ap skip_cache w"
    and "background_run ev ap sites skip_cache w = Some w'"
  shows "\<exists>pre evs.
       ui_queue w' =
         ui_queue w @ pre @ [SetupProgress (length sites)] @ evs @ [Done (length (queue_hits evs))]
     \<and> filter is_inc pre = []
     \<and> filter is_setup evs = [] \<and> filter is_done evs = []
     \<and> length (filter is_inc evs) = length (scheduled_sites ev (var_query ap) sites)
     \<and> calls w' =
         calls w
         @ (if tokens (var_query ap) = [] then []
            else map (\<lambda>s. DatasetCall s (site_qdict s (var_query ap))) (ordered_sites sites))
         @ dispatch_calls ev (max 3 (timeout_var ap)) (scheduled_sites ev (var_query ap) sites)"
proof -
  obtain s3 pre a n where u:
    "background_run ev ap sites skip_cache w =
       scrape_and_finish ev (var_query ap) (engine_guard (engine_var ap)) (max 3 (timeout_var ap))
         (scheduled_sites ev (var_query ap) sites) s3"
    "ui_queue (fst s3) =
       ui_queue w @ pre @ [SetupProgress (length sites), Note NoteRunningDatasets] @ a @ [Note n]"
    "filter is_inc pre = []"
    "filter is_setup a = []" "filter is_done a = []" "filter is_inc a = []"
    "snd s3 = queue_hits a"
    "calls (fst s3) = calls w
       @ (if tokens (var_query ap) = [] then []
          else map (\<lambda>s. DatasetCall s (site_qdict s (var_query ap))) (ordered_sites sites))"
    using background_run_fresh_unfold[OF assms(1), of sites] by blast
  have sf: "scrape_and_finish ev (var_query ap) (engine_guard (engine_var ap)) (max 3 (timeout_var ap))
         (scheduled_sites ev (var_query ap) sites) s3 = Some w'"
    using u(1) assms(2) by simp
  obtain b where b:
      "ui_queue w' = ui_queue (fst s3) @ b @ [Done (length (snd s3) + length (queue_hits b))]"
      "filter is_setup b = []" "filter is_done b = []"
      "length (filter is_inc b) = length (scheduled_sites ev (var_query ap) sites)"
      "calls w' = calls (fst s3)
          @ dispatch_calls ev (max 3 (timeout_var ap)) (scheduled_sites ev (var_query ap) sites)"
    using scrape_and_finish_Some[OF sf] by blast
  let ?evs = "[Note NoteRunningDatasets] @ a @ [Note n] @ b"
  have qh: "queue_hits ?evs = queue_hits a @ queue_hits b"
    by (simp add: queue_hits_def)
  have uq: "ui_queue w' =
      ui_queue w @ pre @ [SetupProgress (length sites)] @ ?evs @ [Done (length (queue_hits ?evs))]"
    by (simp only: b(1) u(2) u(7) qh) simp
  show ?thesis
    apply (rule exI[of _ pre], rule exI[of _ ?evs], intro conjI)
    subgoal using uq by blast
    subgoal using u(3) .
    subgoal using u(4) b(2) by (simp add: is_setup_def)
    subgoal using u(5) b(3) by (simp add: is_done_def)
    subgoal using u(6) b(4) by (simp add: is_inc_def)
    subgoal by (simp only: b(5) u(8)) simp
    done
qed

lemma background_run_ends:
  assumes "\<forall>st \<in> set (scheduled_sites ev (var_query ap) sites). invocation_ends ev (var_query ap) st"
  shows "\<exists>w'. background_run ev ap sites skip_cache w = Some w'"
proof (cases "cache_short_circuits ev ap skip_cache w")
  case True
  then show ?thesis using background_run_cached[OF True, of sites] by simp
next
  case False
  obtain s3 where
    "background_run ev ap sites skip_cache w =
       scrape_and_finish ev (var_query ap) (engine_guard (engine_var ap)) (max 3 (timeout_var ap))
         (scheduled_sites ev (var_query ap) sites) s3"
    using background_run_fresh_unfold[OF False, of sites] by blast
  then show ?thesis
    using scrape_and_finish_ends[OF assms, of "engine_guard (engine_var ap)"
            "max 3 (timeout_var ap)" s3]
    by simp
qed

section \<open>The progress bar\<close>

lemma process_ui_queue_append:
  "process_ui_queue (a @ b) u = process_ui_queue b (process_ui_queue a u)"
  by (simp add: process_ui_queue_def)

lemma process_no_setup:
  "filter is_setup evs = [] \<Longrightarrow>
     progress_maximum (process_ui_queue evs u) = progress_maximum u"
proof (induction evs arbitrary: u)
  case Nil
  show ?case by (simp add: process_ui_queue_def)
next
  case (Cons e evs)
  from Cons.prems have ne: "\<not> is_setup e" and rest: "filter is_setup evs = []"
    by (auto split: if_splits)
  have "progress_maximum (process_event e u) = progress_maximum u"
    using ne by (cases e) (simp_all add: is_setup_def)
  then show ?case
    using Cons.IH[OF rest, of "process_event e u"] by (simp add: process_ui_queue_def)
qed

lemma process_setup_then_done:
  assumes "filter is_setup evs = []"
  shows "progress_maximum (process_ui_queue (pre @ [SetupProgress n] @ evs @ [Done k]) u) = n
       \<and> progress_value (process_ui_queue (pre @ [SetupProgress n] @ evs @ [Done k]) u) = n
       \<and> finished (process_ui_queue (pre @ [SetupProgress n] @ evs @ [Done k]) u)"
proof -
  let ?u1 = "process_ui_queue [SetupProgress n] (process_ui_queue pre u)"
  have m1: "progress_maximum ?u1 = n" by (simp add: process_ui_queue_def)
  have m2: "progress_maximum (process_ui_queue evs ?u1) = n"
    using process_no_setup[OF assms, of ?u1] m1 by simp
  have e: "process_ui_queue (pre @ [SetupProgress n] @ evs @ [Done k]) u =
        process_event (Done k) (process_ui_queue evs ?u1)"
    by (simp add: process_ui_queue_def)
  show ?thesis by (simp only: e) (simp add: m2)
qed

lemma tokens_empty_query: "tokens empty_query = []"
  by (simp add: tokens_def token_candidates_def empty_query_def full_name_def strip_def)

lemma scheduled_sites_no_tokens:
  "tokens q = [] \<Longrightarrow> scheduled_sites ev q sites = ordered_sites sites"
  by (simp add: scheduled_sites_def accepted_hits_def)

lemma filter_dataset_scraper_calls:
  "filter is_dataset_call (map (\<lambda>st. ScraperCall st (f st)) xs) = []"
  by (induction xs) (simp_all add: is_dataset_call_def)

lemmas example_defs =
  example_env_def raising_scraper_def slow_scraper_def silent_scraper_def fresh_world_def
  empty_query_def alice_query_def offline_def example_app_def hanging_env_def
  hanging_scraper_def

lemma process_ends_with_done:
  "finished (process_ui_queue (evs @ [Done k]) u)
   \<and> progress_value (process_ui_queue (evs @ [Done k]) u)
       = progress_maximum (process_ui_queue (evs @ [Done k]) u)"
  by (simp add: process_ui_queue_def)

lemma run_site_raises:
  assumes "get_session ev = None" and "map_of (SCRAPERS ev) st = Some fn"
    and "outcome (fn q) = Raises e" and "elapsed (fn q) = Some d" and "d \<le> real_of_int t"
  shows "run_site_with_timeout ev st q t w = Some (record_call (ScraperCall st t) w, Inr [])"
  using assms
  by (cases e) (simp_all add: run_site_with_timeout_def Let_def run_scraper_time_def run_scraper_def)

lemma filter_dataset_dispatch_calls:
  "filter is_dataset_call (dispatch_calls ev timeout sts) = []"
  by (simp add: dispatch_calls_def filter_dataset_scraper_calls)

lemma new_events_append: "ui_queue w' = ui_queue w @ evs \<Longrightarrow> new_events w w' = evs"
  by (simp add: new_events_def)

lemma Radaris_home: "site_base_url ''Radaris'' = Some ''https://radaris.com''"
  by (simp add: site_base_url_def SITE_URL_def site_domain_def SITE_DOMAIN_def)

lemma FamilyTreeNow_home: "site_base_url ''FamilyTreeNow'' = Some ''https://familytreenow.com''"
  by (simp add: site_base_url_def SITE_URL_def site_domain_def SITE_DOMAIN_def)

section \<open>Tokens and accepted hits\<close>

lemma lower_char_idem: "lower_char (lower_char c) = lower_char c"
proof (cases "65 \<le> (of_char c :: nat) \<and> (of_char c :: nat) \<le> 90")
  case True
  then have "(of_char (char_of (of_char c + 32 :: nat)) :: nat) = of_char c + 32"
    by simp
  then show ?thesis using True by (simp add: lower_char_def Let_def)
next
  case False
  then show ?thesis by (auto simp: lower_char_def Let_def)
qed

lemma lower_idem: "lower (lower s) = lower s"
  by (simp add: lower_def lower_char_idem)

lemma lower_digit: "is_digit c \<Longrightarrow> lower_char c = c"
  by (auto simp: is_digit_def lower_char_def Let_def)

lemma lower_digits_only: "lower (digits_only s) = digits_only s"
  by (induction s) (simp_all add: lower_def digits_only_def lower_digit)

lemma dedupe_subset: "set (dedupe seen xs) \<subseteq> set xs"
  by (induction xs arbitrary: seen) auto

lemma token_candidates_lower: "t \<in> set (token_candidates q) \<Longrightarrow> lower t = t"
  by (auto simp: token_candidates_def Let_def lower_idem lower_digits_only split: if_splits)

lemma tokens_lower: "t \<in> set (tokens q) \<Longrightarrow> lower t = t"
  using dedupe_subset[of "[]" "token_candidates q"] token_candidates_lower
  by (auto simp: tokens_def)

lemma accepted_hit_has_token:
  assumes "h \<in> set (accepted_hits ev q toks s)"
  shows "\<exists>dhs dh tok pre post.
           call_provider ev \<lparr>se_label = s, se_domain = None\<rparr> (site_qdict s q) = Inr dhs
         \<and> dh \<in> set dhs \<and> h = ds_hit s dh
         \<and> tok \<in> set toks \<and> tok \<noteq> [] \<and> combined_text dh = pre @ tok @ post"
proof -
  have "\<exists>dhs. call_provider ev \<lparr>se_label = s, se_domain = None\<rparr> (site_qdict s q) = Inr dhs
          \<and> h \<in> set (map (ds_hit s) (filter (matched toks) dhs))"
  proof (cases "call_provider ev \<lparr>se_label = s, se_domain = None\<rparr> (site_qdict s q)")
    case (Inl e)
    then show ?thesis using assms by (simp add: accepted_hits_def split: if_splits)
  next
    case (Inr dhs)
    then show ?thesis using assms by (simp add: accepted_hits_def split: if_splits)
  qed
  then obtain dhs where dhs:
      "call_provider ev \<lparr>se_label = s, se_domain = None\<rparr> (site_qdict s q) = Inr dhs"
      "h \<in> set (map (ds_hit s) (filter (matched toks) dhs))"
    by blast
  then obtain dh where dh: "dh \<in> set dhs" "matched toks dh" "h = ds_hit s dh" by auto
  from dh(2) obtain tok where tok: "tok \<in> set toks" "tok \<noteq> []" "contains tok (combined_text dh)"
    by (auto simp: matched_def list_ex_iff)
  from tok(3) obtain pre post where "combined_text dh = pre @ tok @ post"
    using contains_iff by blast
  with dhs(1) dh(1,3) tok(1,2) show ?thesis by blast
qed

section \<open>Properties of the dispatch order\<close>

lemma remaining_eq: "remaining sites = filter (\<lambda>s. \<not> is_priority s) sites"
  unfolding remaining_def prioritized_def is_priority_def
  by (rule filter_cong) auto

lemma prioritized_all: "list_all is_priority (prioritized sites)"
  unfolding prioritized_def is_priority_def by (simp add: list_all_iff)

text \<open>
  C1 (as stated): the dispatch order is the stable partition of the input list, priority
  sources first. This fails on the code: the priority sources are taken in the order of
  \<open>PRIORITY_SITES\<close>, not in their order in the input list.
\<close>

theorem ordered_sites_not_stable_partition:
  "ordered_sites [''FamilyTreeNow'', ''Username Pack (direct)'']
     \<noteq> spec_dispatch_order [''FamilyTreeNow'', ''Username Pack (direct)'']"
  by (simp add: ordered_sites_def prioritized_def remaining_def spec_dispatch_order_def
        is_priority_def PRIORITY_SITES_def)

text \<open>
  C1 (amended): in the dispatch order every priority source comes before every
  non-priority source; the priority sources that were selected appear once each in the
  fixed order of \<open>PRIORITY_SITES\<close>, whatever their order in the input list; the
  remaining sources keep their original relative order.
\<close>

theorem ordered_sites_priority_first:
  "filter is_priority (ordered_sites sites) = filter (\<lambda>s. s \<in> set sites) PRIORITY_SITES
   \<and> filter (\<lambda>s. \<not> is_priority s) (ordered_sites sites) = filter (\<lambda>s. \<not> is_priority s) sites
   \<and> ordered_sites sites =
       filter is_priority (ordered_sites sites) @ filter (\<lambda>s. \<not> is_priority s) (ordered_sites sites)"
proof -
  have p: "filter is_priority (prioritized sites) = prioritized sites"
    using prioritized_all by (simp add: list_all_iff)
  have np: "filter (\<lambda>s. \<not> is_priority s) (prioritized sites) = []"
    using prioritized_all by (simp add: list_all_iff)
  have r: "filter is_priority (remaining sites) = []"
    by (simp add: remaining_eq)
  have nr: "filter (\<lambda>s. \<not> is_priority s) (remaining sites) = remaining sites"
    by (simp add: remaining_eq)
  show ?thesis
    unfolding ordered_sites_def
    by (simp add: p np r nr) (simp add: remaining_eq prioritized_def)
qed

theorem ordered_sites_priority_first_witness:
  "ordered_sites [''Radaris'', ''WhoCallsMe'', ''Zillow'', ''Username Pack (direct)'']
     = [''Username Pack (direct)'', ''WhoCallsMe'', ''Radaris'', ''Zillow'']"
  using ordered_sites_priority_first
          [of "[''Radaris'', ''WhoCallsMe'', ''Zillow'', ''Username Pack (direct)'']"]
  by (simp add: is_priority_def PRIORITY_SITES_def ordered_sites_def prioritized_def
        remaining_def)

section \<open>Properties of the cache\<close>

lemma filter_key_unique:
  "distinct (map f xs) \<Longrightarrow> k \<in> set xs \<Longrightarrow> filter (\<lambda>x. f k = f x) xs = [k]"
proof (induction xs)
  case Nil
  then show ?case by simp
next
  case (Cons a xs)
  show ?case
  proof (cases "k = a")
    case True
    have "filter (\<lambda>x. f a = f x) xs = []"
      using Cons.prems(1) by (auto simp: filter_empty_conv)
    with True show ?thesis by simp
  next
    case False
    with Cons.prems have kin: "k \<in> set xs" by simp
    have "f a \<notin> f ` set xs" using Cons.prems(1) by simp
    moreover have "f k \<in> f ` set xs" using kin by simp
    ultimately have "f k \<noteq> f a" by auto
    with Cons.IH Cons.prems(1) kin show ?thesis by simp
  qed
qed

lemma sort_key_perm:
  assumes "mset xs = mset ys" and "distinct (map f xs)"
  shows "sort_key f xs = sort_key f ys"
proof (rule properties_for_sort_key)
  show "mset (sort_key f ys) = mset xs" using assms(1) by simp
  show "sorted (map f (sort_key f ys))" by simp
  fix k assume "k \<in> set (sort_key f ys)"
  then have kys: "k \<in> set ys" by simp
  then have kxs: "k \<in> set xs" using assms(1) by (metis mset_eq_setD)
  have "mset (map f xs) = mset (map f ys)" using assms(1) by simp
  then have dys: "distinct (map f ys)"
    using assms(2) mset_eq_imp_distinct_iff by blast
  have "filter (\<lambda>x. f k = f x) (sort_key f ys) = sort_key f (filter (\<lambda>x. f k = f x) ys)"
    by (simp add: filter_sort)
  also have "\<dots> = [k]" using filter_key_unique[OF dys kys] by simp
  also have "\<dots> = filter (\<lambda>x. f k = f x) xs" using filter_key_unique[OF assms(2) kxs] by simp
  finally show "filter (\<lambda>x. f k = f x) (sort_key f ys) = filter (\<lambda>x. f k = f x) xs" .
qed

lemma canonical_payload_perm:
  assumes "mset d1 = mset d2" and "distinct (map fst d1)"
  shows "canonical_payload d1 = canonical_payload d2"
proof -
  let ?r = "\<lambda>kv. (fst kv, json_dumps False True (snd kv))"
  let ?p = "\<lambda>kv :: string \<times> string. (fst kv, PStr (snd kv))"
  have m: "mset (map ?r (map ?p d1)) = mset (map ?r (map ?p d2))"
    using assms(1) by simp
  have d: "distinct (map fst (map ?r (map ?p d1)))"
    using assms(2) by (simp add: comp_def)
  have "sort_key fst (map ?r (map ?p d1)) = sort_key fst (map ?r (map ?p d2))"
    by (rule sort_key_perm[OF m d])
  then show ?thesis
    unfolding canonical_payload_def by (simp add: Let_def)
qed

lemma to_ordered_dict_distinct: "distinct (map fst (to_ordered_dict q))"
  by (simp add: to_ordered_dict_def)

text \<open>
  C5: two queries whose nine field values are pairwise equal have the same canonical key,
  and the key does not depend on the order in which the nine entries were inserted into
  the dictionary that is serialised (\<open>d1\<close>, \<open>d2\<close>: any orderings of the entries).
  The key is a function of the query, so every query has exactly one.
\<close>

theorem cache_key_insertion_order_independent:
  assumes "first q1 = first q2" and "last q1 = last q2" and "username q1 = username q2"
    and "email q1 = email q2" and "phone q1 = phone q2" and "address1 q1 = address1 q2"
    and "city q1 = city q2" and "state q1 = state q2" and "zip q1 = zip q2"
    and "mset d1 = mset (to_ordered_dict q1)" and "mset d2 = mset (to_ordered_dict q2)"
  shows "cache_key_for_dict H d1 = cache_key_for_dict H d2
         \<and> cache_key_for_dict H d1 = cache_key_for_query H q1
         \<and> cache_key_for_query H q1 = cache_key_for_query H q2"
proof -
  have e: "to_ordered_dict q1 = to_ordered_dict q2"
    using assms(1-9) by (simp add: to_ordered_dict_def)
  have p1: "canonical_payload d1 = canonical_payload (to_ordered_dict q1)"
    using canonical_payload_perm[of "to_ordered_dict q1" d1] assms(10) to_ordered_dict_distinct
    by simp
  have p2: "canonical_payload d2 = canonical_payload (to_ordered_dict q2)"
    using canonical_payload_perm[of "to_ordered_dict q2" d2] assms(11) to_ordered_dict_distinct
    by simp
  show ?thesis
    unfolding cache_key_for_query_def cache_key_for_dict_def using p1 p2 e by simp
qed

theorem cache_key_insertion_order_independent_witness:
  "cache_key_for_dict (\<lambda>s. s)
      [(''zip'', ''''), (''username'', ''alice''), (''state'', ''''), (''phone'', ''''),
       (''last'', ''''), (''first'', ''''), (''email'', ''a@b.c''), (''city'', ''''),
       (''address1'', '''')]
     = cache_key_for_query (\<lambda>s. s)
        \<lparr>first = '''', last = '''', username = ''alice'', email = ''a@b.c'', phone = '''',
         address1 = '''', city = '''', state = '''', zip = ''''\<rparr>"
  using cache_key_insertion_order_independent
    [of "\<lparr>first = '''', last = '''', username = ''alice'', email = ''a@b.c'', phone = '''',
          address1 = '''', city = '''', state = '''', zip = ''''\<rparr>"
        "\<lparr>first = '''', last = '''', username = ''alice'', email = ''a@b.c'', phone = '''',
          address1 = '''', city = '''', state = '''', zip = ''''\<rparr>"
        "[(''zip'', ''''), (''username'', ''alice''), (''state'', ''''), (''phone'', ''''),
          (''last'', ''''), (''first'', ''''), (''email'', ''a@b.c''), (''city'', ''''),
          (''address1'', '''')]"
        "to_ordered_dict \<lparr>first = '''', last = '''', username = ''alice'', email = ''a@b.c'',
          phone = '''', address1 = '''', city = '''', state = '''', zip = ''''\<rparr>"
        "\<lambda>s. s"]
  by (simp add: to_ordered_dict_def add_mset_commute cache_key_for_query_def)

lemma hit_of_json_asdict: "hit_of_json (asdict h) = Some h"
  by (simp add: hit_of_json_def asdict_def mk_hit_def) 

lemma hits_of_json_asdict: "hits_of_json (map asdict hs) = Some hs"
  by (induction hs) (simp_all add: hit_of_json_asdict)

text \<open>
  C6: round trip. After a successful \<open>save_cache\<close> of a non-empty hit list under a
  query's key, \<open>load_cache\<close> for the same query returns the same hits in the same order.
\<close>

theorem cache_round_trip:
  assumes "save_cache H fs q hits = (fs', p)" and "p \<noteq> []" and "hits \<noteq> []"
  shows "load_cache H fs' q = hits"
proof -
  have w: "cache_path_for_query H q \<notin> unwritable fs"
    using assms(1,2) by (auto simp: save_cache_def Let_def split: if_splits)
  then have "fs' = fs\<lparr>files := (files fs)(cache_path_for_query H q \<mapsto> JsonDoc (PList (map asdict hits)))\<rparr>"
    using assms(1) by (auto simp: save_cache_def Let_def)
  then show ?thesis
    by (simp add: load_cache_def hits_of_json_asdict)
qed

theorem cache_round_trip_witness:
  "load_cache (\<lambda>s. s)
     (fst (save_cache (\<lambda>s. s) \<lparr>files = Map.empty, unwritable = {}\<rparr>
        \<lparr>first = ''Ann'', last = ''Lee'', username = '''', email = '''', phone = '''',
         address1 = '''', city = '''', state = '''', zip = ''''\<rparr>
        [mk_hit ''Radaris'' ''Radaris (search dork)'' ''try search''
           ''https://duckduckgo.com/?q=x'' [(''fallback'', PStr ''dork'')]]))
     \<lparr>first = ''Ann'', last = ''Lee'', username = '''', email = '''', phone = '''',
      address1 = '''', city = '''', state = '''', zip = ''''\<rparr>
   = [mk_hit ''Radaris'' ''Radaris (search dork)'' ''try search''
        ''https://duckduckgo.com/?q=x'' [(''fallback'', PStr ''dork'')]]"
  using cache_round_trip
    [of "\<lambda>s. s" "\<lparr>files = Map.empty, unwritable = {}\<rparr>"
        "\<lparr>first = ''Ann'', last = ''Lee'', username = '''', email = '''', phone = '''',
          address1 = '''', city = '''', state = '''', zip = ''''\<rparr>"
        "[mk_hit ''Radaris'' ''Radaris (search dork)'' ''try search''
           ''https://duckduckgo.com/?q=x'' [(''fallback'', PStr ''dork'')]]"
        "fst (save_cache (\<lambda>s. s) \<lparr>files = Map.empty, unwritable = {}\<rparr>
           \<lparr>first = ''Ann'', last = ''Lee'', username = '''', email = '''', phone = '''',
            address1 = '''', city = '''', state = '''', zip = ''''\<rparr>
           [mk_hit ''Radaris'' ''Radaris (search dork)'' ''try search''
              ''https://duckduckgo.com/?q=x'' [(''fallback'', PStr ''dork'')]])"
        "snd (save_cache (\<lambda>s. s) \<lparr>files = Map.empty, unwritable = {}\<rparr>
           \<lparr>first = ''Ann'', last = ''Lee'', username = '''', email = '''', phone = '''',
            address1 = '''', city = '''', state = '''', zip = ''''\<rparr>
           [mk_hit ''Radaris'' ''Radaris (search dork)'' ''try search''
              ''https://duckduckgo.com/?q=x'' [(''fallback'', PStr ''dork'')]])"]
  by (simp add: save_cache_def Let_def cache_path_for_query_def CACHE_DIR_def)

section \<open>Properties of a scraper task\<close>



lemma example_env_ends: "invocation_ends example_env q st"
  by (simp add: invocation_ends_def run_scraper_time_def example_defs)

text \<open>
  An invocation that ends after its budget: once it has ended, the task contributes the
  home fallback (when a base URL is known for the source) and the dork fallback, each
  with \<open>timeout = true\<close> and its fallback kind in its raw metadata.
\<close>

lemma ended_late_task_fallback:
  assumes "get_session ev = None"
    and "run_scraper_time (SCRAPERS ev) st q = Some d"
    and "real_of_int (site_timeout st timeout) < d"
  shows "\<exists>evs s'. run_task ev q engine timeout st s = Some s'
     \<and> emits (fst s) (fst s') evs
     \<and> snd s' = snd s @ queue_hits evs
     \<and> length (queue_hits evs) = (if site_base_url st = None then 1 else 2)
     \<and> map (\<lambda>h. map_of (raw h) ''fallback'') (queue_hits evs) =
         (if site_base_url st = None then [Some (PStr ''dork'')]
          else [Some (PStr ''home''), Some (PStr ''dork'')])
     \<and> list_all (\<lambda>h. map_of (raw h) ''timeout'' = Some (PBool True)) (queue_hits evs)"
proof -
  let ?t = "site_timeout st timeout"
  have ends: "invocation_ends ev q st"
    using assms(1,2) by (simp add: invocation_ends_def)
  obtain s' where s': "run_task ev q engine timeout st s = Some s'"
    using run_task_ends[OF ends] by blast
  obtain evs r where evs: "run_site_with_timeout ev st q ?t (fst s) = Some r"
      "emits (fst s) (fst s') evs"
      "queue_hits evs = task_hits st q engine ?t (snd r)"
      "snd s' = snd s @ queue_hits evs"
    using run_task_Some[OF s'] by blast
  have r: "snd r = Inl (TimeoutError [])"
    using run_site_timeout[OF assms, of "fst s"] evs(1) by simp
  have hs: "queue_hits evs = task_hits st q engine ?t (Inl (TimeoutError []))"
    using evs(3) r by simp
  show ?thesis
    apply (rule exI[of _ evs], rule exI[of _ s'], intro conjI s' evs(2) evs(4))
    by (cases "site_base_url st"; simp add: hs task_hits_timeout mk_hit_def)+
qed

text \<open>
  C4 at a concrete task: the scraper registered for \<open>Radaris\<close> never ends, so its
  invocation exceeds every budget, and a base URL is known for the source. Leaving the
  executor's block waits for the scraper's thread, so \<open>_run_site_with_timeout\<close> never
  returns: the task contributes no hit and the run never ends.
\<close>

theorem hanging_scraper_yields_nothing:
  "run_scraper_time (SCRAPERS hanging_env) ''Radaris'' empty_query = None
   \<and> site_base_url ''Radaris'' = Some ''https://radaris.com''
   \<and> run_site_with_timeout hanging_env ''Radaris'' empty_query 12 fresh_world = None
   \<and> run_task hanging_env empty_query ''DuckDuckGo'' 12 ''Radaris'' (fresh_world, []) = None
   \<and> background_run hanging_env (example_app empty_query) [''Radaris''] False fresh_world = None"
proof -
  have t: "run_scraper_time (SCRAPERS hanging_env) ''Radaris'' empty_query = None"
    by (simp add: run_scraper_time_def example_defs)
  have gs: "get_session hanging_env = None" by (simp add: example_defs)
  have ne: "\<not> invocation_ends hanging_env empty_query ''Radaris''"
    using t gs by (simp add: invocation_ends_def)
  have r: "background_run hanging_env (example_app empty_query) [''Radaris''] False fresh_world = None"
    by code_simp
  show ?thesis
    using t Radaris_home run_site_never[OF ne] run_task_never[OF ne] r by simp
qed

section \<open>Properties of a run\<close>

lemma first_run_returns:
  "background_run example_env (example_app empty_query) [''NeighborReport''] False fresh_world
     = Some first_run"
proof -
  obtain w' where
    "background_run example_env (example_app empty_query) [''NeighborReport''] False fresh_world
       = Some w'"
    using background_run_ends[of example_env "example_app empty_query" "[''NeighborReport'']"
            False fresh_world] example_env_ends
    by blast
  then show ?thesis by (simp add: first_run_def)
qed

lemma first_run_cache:
  "load_cache (sha256_hexdigest example_env) (disk first_run) (var_query (example_app empty_query))
     \<noteq> []"
  by code_simp

lemma first_run_calls: "calls first_run = [ScraperCall ''NeighborReport'' 12]"
  by code_simp

lemma ordered_neighbor_report: "ordered_sites [''NeighborReport''] = [''NeighborReport'']"
  by (simp add: ordered_sites_def prioritized_def remaining_def PRIORITY_SITES_def)

text \<open>
  C8: a run started without a cache-bypass request for a query with a non-empty cached
  hit list puts exactly the cached hits on the queue (after one note, before \<open>done\<close>)
  and ends: it issues no dataset-provider and no scraper invocation, and writes nothing.
\<close>

theorem cached_run_short_circuits:
  assumes "\<not> skip_cache"
    and "load_cache (sha256_hexdigest ev) (disk w) (var_query ap) = cache_hits"
    and "cache_hits \<noteq> []"
  shows "background_run ev ap sites skip_cache w =
           Some (w\<lparr>ui_queue := ui_queue w @ [Note (NoteCacheLoaded (length cache_hits))]
                  @ map Hit cache_hits @ [Done (length cache_hits)]\<rparr>)
       \<and> map_option calls (background_run ev ap sites skip_cache w) = Some (calls w)
       \<and> map_option disk (background_run ev ap sites skip_cache w) = Some (disk w)
       \<and> queue_hits ([Note (NoteCacheLoaded (length cache_hits))]
                @ map Hit cache_hits @ [Done (length cache_hits)]) = cache_hits"
proof -
  have c: "cache_short_circuits ev ap skip_cache w"
    using assms by (simp add: cache_short_circuits_def)
  have r: "background_run ev ap sites skip_cache w =
           Some (w\<lparr>ui_queue := ui_queue w @ [Note (NoteCacheLoaded (length cache_hits))]
                  @ map Hit cache_hits @ [Done (length cache_hits)]\<rparr>)"
    using background_run_cached[OF c, of sites] assms(2) by simp
  show ?thesis
    by (simp add: r queue_hits_simps queue_hits_append queue_hits_map_Hit)
qed

theorem cached_run_short_circuits_witness:
  "background_run example_env (example_app empty_query) [''NeighborReport''] False fresh_world
     = Some first_run
   \<and> load_cache (sha256_hexdigest example_env) (disk first_run) (var_query (example_app empty_query)) \<noteq> []
   \<and> calls first_run = [ScraperCall ''NeighborReport'' 12]
   \<and> map_option calls
        (background_run example_env (example_app empty_query) [''NeighborReport''] False first_run)
       = Some [ScraperCall ''NeighborReport'' 12]
   \<and> map_option disk
        (background_run example_env (example_app empty_query) [''NeighborReport''] False first_run)
       = Some (disk first_run)"
  using cached_run_short_circuits
          [of False example_env first_run "example_app empty_query"
              "load_cache (sha256_hexdigest example_env) (disk first_run)
                 (var_query (example_app empty_query))" "[''NeighborReport'']"]
        first_run_returns first_run_cache first_run_calls
  by simp

text \<open>
  C7 (as stated): every run whose query has all nine fields empty proceeds directly to
  the scrapers of the selected sources. This fails on a run that is answered from the
  cache: the first run for the empty query caches its dork link, and a second run
  without bypass request invokes no scraper at all.
\<close>

theorem empty_query_cached_run_invokes_no_scraper:
  "var_query (example_app empty_query) = empty_query
   \<and> dispatch_calls example_env 12 (ordered_sites [''NeighborReport''])
       = [ScraperCall ''NeighborReport'' 12]
   \<and> map_option calls
        (background_run example_env (example_app empty_query) [''NeighborReport''] False first_run)
       = Some (calls first_run)
   \<and> map_option calls
        (background_run example_env (example_app empty_query) [''NeighborReport''] False first_run)
       \<noteq> Some (calls first_run @ dispatch_calls example_env 12 (ordered_sites [''NeighborReport'']))"
proof -
  have c: "cache_short_circuits example_env (example_app empty_query) False first_run"
    using first_run_cache by (simp add: cache_short_circuits_def)
  have d: "dispatch_calls example_env 12 (ordered_sites [''NeighborReport''])
       = [ScraperCall ''NeighborReport'' 12]"
    by (simp add: dispatch_calls_def ordered_neighbor_report site_timeout_def example_env_def)
  show ?thesis
    using background_run_cached[OF c, of "[''NeighborReport'']"] d
    by (simp add: example_app_def)
qed

text \<open>
  C7 (amended): when all nine fields of the query are empty, the token list is empty,
  the dataset prefilter issues no dataset-provider invocation for any selected source and
  marks no source as satisfied, so every ordered source is left for the scraper pool; no
  run for such a query issues a dataset-provider invocation. Unless the run is answered
  from the cache (no bypass request and a non-empty cached hit list for the query), it
  proceeds directly to the scrapers: once the scraper tasks of the ordered sources have
  ended, the run has processed one task per ordered source and, where a network session
  can be built, has invoked the scraper of each, in dispatch order.
\<close>

theorem empty_query_skips_datasets:
  assumes "var_query ap = empty_query"
  shows "tokens (var_query ap) = []
       \<and> calls (pf_world (dataset_prefilter ev (var_query ap) (ordered_sites sites) w')) = calls w'
       \<and> sites_to_scrape (ordered_sites sites)
            (satisfied_sites (dataset_prefilter ev (var_query ap) (ordered_sites sites) w'))
           = ordered_sites sites
       \<and> (\<forall>w1. background_run ev ap sites skip_cache w = Some w1 \<longrightarrow>
             filter is_dataset_call (calls w1) = filter is_dataset_call (calls w))
       \<and> (\<not> cache_short_circuits ev ap skip_cache w
            \<and> (\<forall>st \<in> set (ordered_sites sites). invocation_ends ev (var_query ap) st) \<longrightarrow>
            (\<exists>w1. background_run ev ap sites skip_cache w = Some w1
               \<and> length (filter is_inc (new_events w w1)) = length (ordered_sites sites)
               \<and> calls w1 =
                   calls w @ dispatch_calls ev (max 3 (timeout_var ap)) (ordered_sites sites)))"
proof -
  let ?q = "var_query ap"
  have t: "tokens ?q = []" using assms tokens_empty_query by simp
  have sch: "scheduled_sites ev ?q sites = ordered_sites sites"
    using scheduled_sites_no_tokens[OF t] .
  obtain a where a:
      "queue_hits a = concat (map (accepted_hits ev ?q (tokens ?q)) (ordered_sites sites))"
      "set (satisfied_sites (dataset_prefilter ev ?q (ordered_sites sites) w')) = site ` set (queue_hits a)"
      "calls (pf_world (dataset_prefilter ev ?q (ordered_sites sites) w')) =
          calls w' @ (if tokens ?q = [] then []
             else map (\<lambda>s. DatasetCall s (site_qdict s ?q)) (ordered_sites sites))"
    using dataset_prefilter_effect[of w' ev ?q "ordered_sites sites"] by blast
  have pc: "calls (pf_world (dataset_prefilter ev ?q (ordered_sites sites) w')) = calls w'"
    using a(3) t by simp
  have "queue_hits a = []" using a(1) t by (simp add: accepted_hits_def)
  then have "satisfied_sites (dataset_prefilter ev ?q (ordered_sites sites) w') = []"
    using a(2) by simp
  then have sts: "sites_to_scrape (ordered_sites sites)
            (satisfied_sites (dataset_prefilter ev ?q (ordered_sites sites) w'))
           = ordered_sites sites"
    by (simp add: sites_to_scrape_def)
  have fresh: "length (filter is_inc (new_events w w1)) = length (ordered_sites sites)
         \<and> calls w1 = calls w @ dispatch_calls ev (max 3 (timeout_var ap)) (ordered_sites sites)"
    if nc: "\<not> cache_short_circuits ev ap skip_cache w"
      and r: "background_run ev ap sites skip_cache w = Some w1" for w1
  proof -
    obtain pre evs where e:
        "ui_queue w1 = ui_queue w @ pre @ [SetupProgress (length sites)] @ evs
                         @ [Done (length (queue_hits evs))]"
        "filter is_inc pre = []"
        "length (filter is_inc evs) = length (scheduled_sites ev ?q sites)"
        "calls w1 = calls w
           @ (if tokens ?q = [] then []
              else map (\<lambda>s. DatasetCall s (site_qdict s ?q)) (ordered_sites sites))
           @ dispatch_calls ev (max 3 (timeout_var ap)) (scheduled_sites ev ?q sites)"
      using background_run_fresh[OF nc r] by blast
    have ne: "new_events w w1 = pre @ [SetupProgress (length sites)] @ evs
                         @ [Done (length (queue_hits evs))]"
      using new_events_append[of w1 w] e(1) by simp
    show ?thesis using e(2,3,4) t sch by (simp add: ne is_inc_def)
  qed
  have nd: "filter is_dataset_call (calls w1) = filter is_dataset_call (calls w)"
    if r: "background_run ev ap sites skip_cache w = Some w1" for w1
  proof (cases "cache_short_circuits ev ap skip_cache w")
    case True
    then show ?thesis using background_run_cached[OF True, of sites] r by auto
  next
    case False
    then show ?thesis using fresh[OF False r] by (simp add: filter_dataset_dispatch_calls)
  qed
  have ends: "\<exists>w1. background_run ev ap sites skip_cache w = Some w1
               \<and> length (filter is_inc (new_events w w1)) = length (ordered_sites sites)
               \<and> calls w1 =
                   calls w @ dispatch_calls ev (max 3 (timeout_var ap)) (ordered_sites sites)"
    if nc: "\<not> cache_short_circuits ev ap skip_cache w"
      and al: "\<forall>st \<in> set (ordered_sites sites). invocation_ends ev ?q st"
  proof -
    obtain w1 where r: "background_run ev ap sites skip_cache w = Some w1"
      using background_run_ends[of ev ap sites skip_cache w] al sch by auto
    show ?thesis using r fresh[OF nc r] by blast
  qed
  show ?thesis using t pc sts nd ends by blast
qed

theorem empty_query_skips_datasets_witness:
  "var_query (example_app empty_query) = empty_query
   \<and> \<not> cache_short_circuits example_env (example_app empty_query) False fresh_world
   \<and> map_option calls (background_run example_env (example_app empty_query)
              [''Radaris'', ''FamilyTreeNow'', ''NeighborReport''] False fresh_world)
       = Some [ScraperCall ''FamilyTreeNow'' 12, ScraperCall ''Radaris'' 12,
               ScraperCall ''NeighborReport'' 12]"
proof -
  have h: "var_query (example_app empty_query) = empty_query"
    by (simp add: example_app_def)
  have nc: "\<not> cache_short_circuits example_env (example_app empty_query) False fresh_world"
    by (simp add: cache_short_circuits_def load_cache_def fresh_world_def)
  have o: "ordered_sites [''Radaris'', ''FamilyTreeNow'', ''NeighborReport'']
             = [''FamilyTreeNow'', ''Radaris'', ''NeighborReport'']"
    by (simp add: ordered_sites_def prioritized_def remaining_def PRIORITY_SITES_def)
  have d: "dispatch_calls example_env (max 3 (timeout_var (example_app empty_query)))
             [''FamilyTreeNow'', ''Radaris'', ''NeighborReport'']
           = [ScraperCall ''FamilyTreeNow'' 12, ScraperCall ''Radaris'' 12,
              ScraperCall ''NeighborReport'' 12]"
    by (simp add: dispatch_calls_def site_timeout_def example_app_def example_env_def)
  have cw: "calls fresh_world = []" by (simp add: fresh_world_def)
  from empty_query_skips_datasets
         [OF h, of example_env "[''Radaris'', ''FamilyTreeNow'', ''NeighborReport'']"
            fresh_world False fresh_world]
       nc example_env_ends
  obtain w1 where
    "background_run example_env (example_app empty_query)
        [''Radaris'', ''FamilyTreeNow'', ''NeighborReport''] False fresh_world = Some w1"
    "calls w1 = calls fresh_world
       @ dispatch_calls example_env (max 3 (timeout_var (example_app empty_query)))
           (ordered_sites [''Radaris'', ''FamilyTreeNow'', ''NeighborReport''])"
    by blast
  then show ?thesis using h nc by (simp add: o d cw)
qed

section \<open>Properties of the dataset prefilter\<close>

text \<open>
  C9: every hit the dataset prefilter surfaces (puts on the queue and adds to the
  results) comes from a candidate hit returned by the provider for one of the sources in
  which at least one lower-cased query token occurs as a substring of the text made of
  the candidate's lower-cased title, snippet, url and JSON-serialised raw metadata
  (joined by single spaces). A candidate sharing no token with the query is never surfaced.
\<close>

theorem dataset_hits_share_a_token:
  "\<exists>evs. emits w (pf_world (dataset_prefilter ev q ordered w)) evs
     \<and> queue_hits evs = results_from_datasets (dataset_prefilter ev q ordered w)
     \<and> (\<forall>h \<in> set (queue_hits evs). \<exists>s dhs dh tok pre post.
           s \<in> set ordered
         \<and> call_provider ev \<lparr>se_label = s, se_domain = None\<rparr> (site_qdict s q) = Inr dhs
         \<and> dh \<in> set dhs \<and> h = ds_hit s dh
         \<and> tok \<in> set (tokens q) \<and> tok \<noteq> [] \<and> lower tok = tok
         \<and> combined_text dh = pre @ tok @ post)"
proof -
  obtain evs where evs: "emits w (pf_world (dataset_prefilter ev q ordered w)) evs"
      "queue_hits evs = concat (map (accepted_hits ev q (tokens q)) ordered)"
      "results_from_datasets (dataset_prefilter ev q ordered w) = queue_hits evs"
    using dataset_prefilter_effect[of w ev q ordered] by blast
  have "\<exists>s dhs dh tok pre post.
           s \<in> set ordered
         \<and> call_provider ev \<lparr>se_label = s, se_domain = None\<rparr> (site_qdict s q) = Inr dhs
         \<and> dh \<in> set dhs \<and> h = ds_hit s dh
         \<and> tok \<in> set (tokens q) \<and> tok \<noteq> [] \<and> lower tok = tok
         \<and> combined_text dh = pre @ tok @ post" if "h \<in> set (queue_hits evs)" for h
  proof -
    from that evs(2) obtain s where s: "s \<in> set ordered" "h \<in> set (accepted_hits ev q (tokens q) s)"
      by auto
    from accepted_hit_has_token[OF s(2)] obtain dhs dh tok pre post where
      "call_provider ev \<lparr>se_label = s, se_domain = None\<rparr> (site_qdict s q) = Inr dhs"
      "dh \<in> set dhs" "h = ds_hit s dh" "tok \<in> set (tokens q)" "tok \<noteq> []"
      "combined_text dh = pre @ tok @ post"
      by blast
    with s(1) tokens_lower show ?thesis by blast
  qed
  with evs(1,3) show ?thesis by (intro exI[of _ evs]) simp
qed

lemma tokens_alice: "tokens alice_query = [''alice'']"
  by code_simp

lemma alice_username_pack_accepted:
  "accepted_hits example_env alice_query [''alice''] ''Username Pack (direct)'' =
     [mk_hit ''Username Pack'' ''DuckDuckGo search'' ''alice''
        ''https://duckduckgo.com/?q=alice'' [(''engine'', PStr ''DuckDuckGo'')],
      mk_hit ''Username Pack'' ''Google search'' ''alice''
        ''https://www.google.com/search?q=alice'' [(''engine'', PStr ''Google'')],
      mk_hit ''Username Pack'' ''Bing search'' ''alice''
        ''https://www.bing.com/search?q=alice'' [(''engine'', PStr ''Bing'')],
      mk_hit ''Username Pack'' ''GitHub code search'' ''alice''
        ''https://github.com/search?q=alice'' [(''engine'', PStr ''GitHub code'')]]"
  by code_simp

lemma ordered_username_pack:
  "ordered_sites [''Username Pack (direct)''] = [''Username Pack (direct)'']"
  by (simp add: ordered_sites_def prioritized_def remaining_def PRIORITY_SITES_def)

theorem dataset_hits_share_a_token_witness:
  "map title (results_from_datasets
      (dataset_prefilter example_env alice_query [''Username Pack (direct)''] fresh_world))
     = [''DuckDuckGo search'', ''Google search'', ''Bing search'', ''GitHub code search'']
   \<and> tokens alice_query = [''alice'']"
proof -
  obtain evs where evs:
      "queue_hits evs = concat (map (accepted_hits example_env alice_query (tokens alice_query))
                                  [''Username Pack (direct)''])"
      "results_from_datasets
         (dataset_prefilter example_env alice_query [''Username Pack (direct)''] fresh_world)
       = queue_hits evs"
    using dataset_prefilter_effect
            [of fresh_world example_env alice_query "[''Username Pack (direct)'']"]
    by blast
  have e: "map title (results_from_datasets
      (dataset_prefilter example_env alice_query [''Username Pack (direct)''] fresh_world))
     = [''DuckDuckGo search'', ''Google search'', ''Bing search'', ''GitHub code search'']"
    by (simp add: evs tokens_alice alice_username_pack_accepted mk_hit_def)
  show ?thesis
    using dataset_hits_share_a_token
            [of fresh_world example_env alice_query "[''Username Pack (direct)'']"]
          e tokens_alice
    by simp
qed

text \<open>
  C3 at a concrete run: the source \<open>Username Pack (direct)\<close> accrues four accepted
  dataset hits for the query with username \<open>alice\<close>, yet the site marked satisfied is
  \<open>Username Pack\<close> (the label cut at its first \<open>" ("\<close>), the source stays in the
  list handed to the scraper pool, and its scraper is invoked.
\<close>

theorem username_pack_not_removed:
  "map site (accepted_hits example_env alice_query (tokens alice_query) ''Username Pack (direct)'')
     = [''Username Pack'', ''Username Pack'', ''Username Pack'', ''Username Pack'']
   \<and> set (satisfied_sites (dataset_prefilter example_env alice_query
         (ordered_sites [''Username Pack (direct)'']) fresh_world)) = {''Username Pack''}
   \<and> sites_to_scrape (ordered_sites [''Username Pack (direct)''])
         (satisfied_sites (dataset_prefilter example_env alice_query
            (ordered_sites [''Username Pack (direct)'']) fresh_world))
       = [''Username Pack (direct)'']
   \<and> map_option calls (background_run example_env (example_app alice_query)
              [''Username Pack (direct)''] True fresh_world)
       = Some [DatasetCall ''Username Pack (direct)'' (to_ordered_dict alice_query),
               ScraperCall ''Username Pack (direct)'' 20]"
proof -
  let ?st = "''Username Pack (direct)''"
  let ?pf = "dataset_prefilter example_env alice_query (ordered_sites [?st]) fresh_world"
  have acc: "map site (accepted_hits example_env alice_query (tokens alice_query) ?st)
     = [''Username Pack'', ''Username Pack'', ''Username Pack'', ''Username Pack'']"
    by (simp add: tokens_alice alice_username_pack_accepted mk_hit_def)
  obtain evs where evs:
      "queue_hits evs = concat (map (accepted_hits example_env alice_query (tokens alice_query))
                                  (ordered_sites [?st]))"
      "set (satisfied_sites ?pf) = site ` set (queue_hits evs)"
    using dataset_prefilter_effect[of fresh_world example_env alice_query "ordered_sites [?st]"]
    by blast
  have sat: "set (satisfied_sites ?pf) = {''Username Pack''}"
    using evs
    by (simp add: ordered_username_pack tokens_alice alice_username_pack_accepted mk_hit_def)
  have sch: "scheduled_sites example_env alice_query [?st] = [?st]"
    by (simp add: scheduled_sites_def ordered_username_pack tokens_alice
          alice_username_pack_accepted mk_hit_def)
  have todo: "sites_to_scrape (ordered_sites [?st]) (satisfied_sites ?pf) = [?st]"
    using sites_to_scrape_scheduled[of "satisfied_sites ?pf" example_env alice_query "[?st]"]
          evs sch
    by simp
  have nc: "\<not> cache_short_circuits example_env (example_app alice_query) True fresh_world"
    by (simp add: cache_short_circuits_def)
  have qd: "site_qdict ?st alice_query = to_ordered_dict alice_query"
    by (simp add: site_qdict_def cats_get_def CATS_def property_sites_def reverse_phone_sites_def)
  have cl: "map_option calls
              (background_run example_env (example_app alice_query) [?st] True fresh_world)
       = Some [DatasetCall ?st (to_ordered_dict alice_query), ScraperCall ?st 20]"
  proof -
    have vq: "var_query (example_app alice_query) = alice_query"
      and tv: "timeout_var (example_app alice_query) = 12"
      by (simp_all add: example_app_def)
    have cw: "calls fresh_world = []" by (simp add: fresh_world_def)
    have d: "dispatch_calls example_env 12 [?st] = [ScraperCall ?st 20]"
      by (simp add: dispatch_calls_def site_timeout_def example_env_def)
    obtain w1 where r:
      "background_run example_env (example_app alice_query) [?st] True fresh_world = Some w1"
      using background_run_ends[of example_env "example_app alice_query" "[?st]" True fresh_world]
            example_env_ends
      by blast
    from background_run_fresh[OF nc r] have
      "calls w1 =
         calls fresh_world
         @ (if tokens (var_query (example_app alice_query)) = [] then []
            else map (\<lambda>s. DatasetCall s (site_qdict s (var_query (example_app alice_query))))
                   (ordered_sites [?st]))
         @ dispatch_calls example_env (max 3 (timeout_var (example_app alice_query)))
             (scheduled_sites example_env (var_query (example_app alice_query)) [?st])"
      by blast
    then have "calls w1 = [DatasetCall ?st (to_ordered_dict alice_query), ScraperCall ?st 20]"
      by (simp add: vq tv cw sch tokens_alice ordered_username_pack qd d)
    then show ?thesis using r by simp
  qed
  show ?thesis using acc sat todo cl by simp
qed

text \<open>
  C2 (as stated): a task whose scraper raises an unexpected fault yields two fallback
  hits tagged with an error marker. On the code the fault never reaches the scheduler:
  \<open>run_scraper\<close> turns it into an empty result, and the task yields the plain
  fallback hits of an empty success, without an error marker.
\<close>

theorem raising_scraper_hits_have_no_error_marker:
  "outcome (raising_scraper empty_query) = Raises (OtherError ''boom'')
   \<and> map_of (SCRAPERS example_env) ''FamilyTreeNow'' = Some raising_scraper
   \<and> site_base_url ''FamilyTreeNow'' = Some ''https://familytreenow.com''
   \<and> task_error_markers
        (run_task example_env empty_query ''DuckDuckGo'' 12 ''FamilyTreeNow'' (fresh_world, []))
      = Some [False, False]"
  by (simp add: FamilyTreeNow_home run_task_def process_result_def fold_emit_hit put_note_def
        task_error_markers_def
        run_site_with_timeout_def Let_def
        run_scraper_def run_scraper_time_def site_timeout_def task_hits_def truthy_def
        has_error_marker_def mk_hit_def example_defs)

text \<open>
  C2 (amended): a task whose scraper raises a fault (and does not time out) is handled
  as an empty success. When a base URL is known for the source it contributes exactly
  two fallback hits, home then dork, tagged with their fallback kind only: neither carries
  an error marker. The task reports one progress increment, and the run completes: once
  the scraper tasks of the sources handed to the pool have ended, the run ends with
  \<open>done\<close>, which brings the progress value to its maximum, and in a run not answered
  from the cache that maximum is the number of selected sources, with one progress
  increment per source handed to the scraper pool.
\<close>

theorem raising_scraper_plain_fallback:
  assumes "get_session ev = None" and "map_of (SCRAPERS ev) st = Some fn"
    and "outcome (fn q) = Raises e"
    and "elapsed (fn q) = Some d"
    and "d \<le> real_of_int (site_timeout st timeout)"
    and "site_base_url st = Some home"
  shows "(\<exists>evs s'. run_task ev q engine timeout st s = Some s'
           \<and> emits (fst s) (fst s') evs
           \<and> filter is_inc evs = [IncProgress 1]
           \<and> snd s' = snd s @ queue_hits evs
           \<and> queue_hits evs =
               [mk_hit st (st @ '' (open site)'')
                  (''No scraper results '' @ mdash @ '' open site.'') home
                  [(''fallback'', PStr ''home'')],
                mk_hit st (st @ '' (search dork)'')
                  (''No scraper results '' @ mdash @ '' try search.'') (dork_url st q engine)
                  [(''fallback'', PStr ''dork'')]]
           \<and> map has_error_marker (queue_hits evs) = [False, False])
       \<and> ((\<forall>st' \<in> set (scheduled_sites ev (var_query ap) sites).
              invocation_ends ev (var_query ap) st') \<longrightarrow>
           (\<exists>w'. background_run ev ap sites skip_cache w = Some w'
             \<and> finished (process_ui_queue (ui_queue w') u)
             \<and> progress_value (process_ui_queue (ui_queue w') u)
                 = progress_maximum (process_ui_queue (ui_queue w') u)
             \<and> (\<not> cache_short_circuits ev ap skip_cache w \<longrightarrow>
                  progress_maximum (process_ui_queue (ui_queue w') u) = length sites
                  \<and> length (filter is_inc (new_events w w'))
                      = length (scheduled_sites ev (var_query ap) sites))))"
proof -
  let ?t = "site_timeout st timeout"
  have r: "run_site_with_timeout ev st q ?t (fst s)
             = Some (record_call (ScraperCall st ?t) (fst s), Inr [])"
    using run_site_raises[OF assms(1-5)] .
  obtain s' where s': "run_task ev q engine timeout st s = Some s'"
    using r by (simp add: run_task_def Let_def)
  obtain evs r' where evs: "run_site_with_timeout ev st q ?t (fst s) = Some r'"
      "emits (fst s) (fst s') evs"
      "filter is_inc evs = [IncProgress 1]"
      "queue_hits evs = task_hits st q engine ?t (snd r')"
      "snd s' = snd s @ queue_hits evs"
    using run_task_Some[OF s'] by blast
  have r': "snd r' = Inr []" using r evs(1) by simp
  have ne: "home \<noteq> []" using site_base_url_nonempty[OF assms(6)] .
  have hs: "queue_hits evs =
               [mk_hit st (st @ '' (open site)'')
                  (''No scraper results '' @ mdash @ '' open site.'') home
                  [(''fallback'', PStr ''home'')],
                mk_hit st (st @ '' (search dork)'')
                  (''No scraper results '' @ mdash @ '' try search.'') (dork_url st q engine)
                  [(''fallback'', PStr ''dork'')]]"
    using ne by (simp add: evs(4) r' task_hits_def Let_def assms(6) truthy_def opt_str_def)
  have task: "\<exists>evs s'. run_task ev q engine timeout st s = Some s'
           \<and> emits (fst s) (fst s') evs
           \<and> filter is_inc evs = [IncProgress 1]
           \<and> snd s' = snd s @ queue_hits evs
           \<and> queue_hits evs =
               [mk_hit st (st @ '' (open site)'')
                  (''No scraper results '' @ mdash @ '' open site.'') home
                  [(''fallback'', PStr ''home'')],
                mk_hit st (st @ '' (search dork)'')
                  (''No scraper results '' @ mdash @ '' try search.'') (dork_url st q engine)
                  [(''fallback'', PStr ''dork'')]]
           \<and> map has_error_marker (queue_hits evs) = [False, False]"
    apply (rule exI[of _ evs], rule exI[of _ s'], intro conjI s' evs(2) evs(3) evs(5) hs)
    by (simp add: hs has_error_marker_def mk_hit_def)
  have run: "\<exists>w'. background_run ev ap sites skip_cache w = Some w'
           \<and> finished (process_ui_queue (ui_queue w') u)
           \<and> progress_value (process_ui_queue (ui_queue w') u)
               = progress_maximum (process_ui_queue (ui_queue w') u)
           \<and> (\<not> cache_short_circuits ev ap skip_cache w \<longrightarrow>
                progress_maximum (process_ui_queue (ui_queue w') u) = length sites
                \<and> length (filter is_inc (new_events w w'))
                    = length (scheduled_sites ev (var_query ap) sites))"
    if al: "\<forall>st' \<in> set (scheduled_sites ev (var_query ap) sites).
              invocation_ends ev (var_query ap) st'"
  proof -
    obtain w' where w': "background_run ev ap sites skip_cache w = Some w'"
      using background_run_ends[OF al, of skip_cache w] by blast
    have fin: "finished (process_ui_queue (ui_queue w') u)
         \<and> progress_value (process_ui_queue (ui_queue w') u)
             = progress_maximum (process_ui_queue (ui_queue w') u)"
    proof (cases "cache_short_circuits ev ap skip_cache w")
      case True
      let ?c = "load_cache (sha256_hexdigest ev) (disk w) (var_query ap)"
      have "ui_queue w' = (ui_queue w @ [Note (NoteCacheLoaded (length ?c))] @ map Hit ?c)
                             @ [Done (length ?c)]"
        using background_run_cached[OF True, of sites] w' by auto
      then show ?thesis using process_ends_with_done by metis
    next
      case False
      then obtain pre evs2 where
        "ui_queue w' = ui_queue w @ pre @ [SetupProgress (length sites)] @ evs2
                          @ [Done (length (queue_hits evs2))]"
        using background_run_fresh[OF False w'] by blast
      then have "ui_queue w' = (ui_queue w @ pre @ [SetupProgress (length sites)] @ evs2)
                          @ [Done (length (queue_hits evs2))]" by simp
      then show ?thesis using process_ends_with_done by metis
    qed
    have fresh: "progress_maximum (process_ui_queue (ui_queue w') u) = length sites
              \<and> length (filter is_inc (new_events w w'))
                = length (scheduled_sites ev (var_query ap) sites)"
      if nc: "\<not> cache_short_circuits ev ap skip_cache w"
    proof -
      obtain pre evs2 where e2:
        "ui_queue w' = ui_queue w @ pre @ [SetupProgress (length sites)] @ evs2
                          @ [Done (length (queue_hits evs2))]"
        "filter is_setup evs2 = []"
        "length (filter is_inc evs2) = length (scheduled_sites ev (var_query ap) sites)"
        "filter is_inc pre = []"
        using background_run_fresh[OF nc w'] by blast
      have m: "progress_maximum (process_ui_queue (ui_queue w') u) = length sites"
        using process_setup_then_done[OF e2(2), of "ui_queue w @ pre" "length sites"
                "length (queue_hits evs2)" u] e2(1) by simp
      have d: "new_events w w' =
                 pre @ [SetupProgress (length sites)] @ evs2 @ [Done (length (queue_hits evs2))]"
        using new_events_append[of w' w] e2(1) by simp
      show ?thesis using m e2(3,4) by (simp add: d is_inc_def)
    qed
    show ?thesis using w' fin fresh by blast
  qed
  show ?thesis using task run by blast
qed

theorem raising_scraper_plain_fallback_witness:
  "get_session example_env = None
   \<and> map_of (SCRAPERS example_env) ''FamilyTreeNow'' = Some raising_scraper
   \<and> outcome (raising_scraper empty_query) = Raises (OtherError ''boom'')
   \<and> elapsed (raising_scraper empty_query) = Some 1
   \<and> 1 \<le> real_of_int (site_timeout ''FamilyTreeNow'' 12)
   \<and> site_base_url ''FamilyTreeNow'' = Some ''https://familytreenow.com''
   \<and> map_option (\<lambda>s. map raw (snd s))
        (run_task example_env empty_query ''DuckDuckGo'' 12 ''FamilyTreeNow'' (fresh_world, []))
       = Some [[(''fallback'', PStr ''home'')], [(''fallback'', PStr ''dork'')]]
   \<and> map_option (\<lambda>w'. progress_value (process_ui_queue (ui_queue w') ui_initial))
        (background_run example_env (example_app empty_query) [''FamilyTreeNow''] False fresh_world)
       = Some 1"
proof -
  have h1: "get_session example_env = None" by (simp add: example_defs)
  have h2: "map_of (SCRAPERS example_env) ''FamilyTreeNow'' = Some raising_scraper"
    by (simp add: example_defs)
  have h3: "outcome (raising_scraper empty_query) = Raises (OtherError ''boom'')"
    by (simp add: raising_scraper_def)
  have h4: "elapsed (raising_scraper empty_query) = Some 1"
    by (simp add: raising_scraper_def)
  have h5: "1 \<le> real_of_int (site_timeout ''FamilyTreeNow'' 12)"
    by (simp add: site_timeout_def)
  have h7: "\<forall>st' \<in> set (scheduled_sites example_env (var_query (example_app empty_query))
                          [''FamilyTreeNow'']).
              invocation_ends example_env (var_query (example_app empty_query)) st'"
    using example_env_ends by blast
  have nc: "\<not> cache_short_circuits example_env (example_app empty_query) False fresh_world"
    by (simp add: cache_short_circuits_def load_cache_def fresh_world_def)
  note t = raising_scraper_plain_fallback
             [OF h1 h2 h3 h4 h5 FamilyTreeNow_home,
              where s="(fresh_world, [])" and engine="''DuckDuckGo''"
                and ap="example_app empty_query" and sites="[''FamilyTreeNow'']"
                and skip_cache=False and w=fresh_world and u=ui_initial]
  from t obtain evs s' where
      "run_task example_env empty_query ''DuckDuckGo'' 12 ''FamilyTreeNow'' (fresh_world, [])
         = Some s'"
      "snd s' = snd (fresh_world, []) @ queue_hits evs"
      "queue_hits evs =
               [mk_hit ''FamilyTreeNow'' (''FamilyTreeNow'' @ '' (open site)'')
                  (''No scraper results '' @ mdash @ '' open site.'') ''https://familytreenow.com''
                  [(''fallback'', PStr ''home'')],
                mk_hit ''FamilyTreeNow'' (''FamilyTreeNow'' @ '' (search dork)'')
                  (''No scraper results '' @ mdash @ '' try search.'')
                  (dork_url ''FamilyTreeNow'' empty_query ''DuckDuckGo'')
                  [(''fallback'', PStr ''dork'')]]"
    by blast
  then have r: "map_option (\<lambda>s. map raw (snd s))
        (run_task example_env empty_query ''DuckDuckGo'' 12 ''FamilyTreeNow'' (fresh_world, []))
       = Some [[(''fallback'', PStr ''home'')], [(''fallback'', PStr ''dork'')]]"
    by (simp add: mk_hit_def)
  from t nc h7 obtain w' where
      "background_run example_env (example_app empty_query) [''FamilyTreeNow''] False fresh_world
         = Some w'"
      "progress_value (process_ui_queue (ui_queue w') ui_initial)
         = progress_maximum (process_ui_queue (ui_queue w') ui_initial)"
      "progress_maximum (process_ui_queue (ui_queue w') ui_initial) = length [''FamilyTreeNow'']"
    by blast
  then have p: "map_option (\<lambda>w'. progress_value (process_ui_queue (ui_queue w') ui_initial))
        (background_run example_env (example_app empty_query) [''FamilyTreeNow''] False fresh_world)
       = Some 1"
    by simp
  show ?thesis using h1 h2 h3 h4 h5 FamilyTreeNow_home r p by simp
qed

end
